theory Spec2Isabelle
  imports Main "HOL-Library.Word"
begin

section \<open>The GCS storage client of clickhouse-backup (pkg/storage/gcs.go)\<close>

text \<open>
  The development embeds the methods of the type \<open>GCS\<close>: \<open>Walk\<close>, \<open>GetFileReader\<close>,
  \<open>GetFileReaderWithLocalPath\<close>, \<open>PutFile\<close>, \<open>StatFile\<close>, \<open>deleteKey\<close>, \<open>DeleteFile\<close>,
  \<open>DeleteFileFromObjectDiskBackup\<close>, \<open>CopyObject\<close>, and \<open>debugGCSTransport.RoundTrip\<close>.
  Every method borrows a client from the pool, calls the bucket and gives the client back
  or invalidates it. The pool and the state of the borrowed client are passed explicitly;
  a Go \<open>error\<close> result is an \<open>error option\<close>, a result with a value is a sum with the
  error on the left.
\<close>

subsection \<open>Errors\<close>

text \<open>
  Go errors are values that may wrap another error. \<open>ErrObjectNotExist\<close> is the storage
  library's sentinel, \<open>ErrNotFound\<close> the one of package \<open>storage\<close> of this repository,
  \<open>IteratorDone\<close> is \<open>iterator.Done\<close>, \<open>EOF\<close> is \<open>io.EOF\<close>.
\<close>

datatype error =
    ErrObjectNotExist
  | ErrNotFound
  | IteratorDone
  | EOF
  | ErrShortWrite
  | PoolExhausted
  | ConnectFailed string
  | BackendError string
  | CallbackError string
  | ReadError string
  | Wrapped string error

text \<open>\<open>errors.Is\<close>: the error itself or one of those it wraps is the target.\<close>

fun errors_Is :: "error \<Rightarrow> error \<Rightarrow> bool" where
  "errors_Is (Wrapped msg e) target = (Wrapped msg e = target \<or> errors_Is e target)"
| "errors_Is e target = (e = target)"

subsection \<open>Keys: \<open>path.Join\<close> and \<open>strings.TrimPrefix\<close>\<close>

text \<open>
  \<open>path.Join\<close> and \<open>path.Clean\<close> belong to the Go standard library. \<open>Clean\<close> is given
  here on the path's elements, as the library documents it: empty elements and \<open>.\<close>
  vanish, an inner \<open>..\<close> removes the element before it, a \<open>..\<close> that begins a rooted
  path vanishes, one that begins a relative path stays, and the empty result is \<open>.\<close>.
\<close>

fun split_slash :: "string \<Rightarrow> string list" where
  "split_slash [] = [[]]"
| "split_slash (c # cs) =
     (if c = CHR ''/'' then [] # split_slash cs
      else (case split_slash cs of [] \<Rightarrow> [[c]] | x # xs \<Rightarrow> (c # x) # xs))"

fun join_slash :: "string list \<Rightarrow> string" where
  "join_slash [] = []"
| "join_slash [x] = x"
| "join_slash (x # y # ys) = x @ CHR ''/'' # join_slash (y # ys)"

text \<open>The elements kept so far are held last-first, as a stack.\<close>

definition clean_step :: "bool \<Rightarrow> string list \<Rightarrow> string \<Rightarrow> string list" where
  "clean_step rooted out c =
     (if c = [] \<or> c = ''.'' then out
      else if c = ''..'' then
        (case out of
           [] \<Rightarrow> if rooted then [] else [''..'']
         | x # xs \<Rightarrow> if x = ''..'' then ''..'' # out else xs)
      else c # out)"

definition Clean :: "string \<Rightarrow> string" where
  "Clean p =
     (if p = [] then ''.''
      else
        let rooted = (hd p = CHR ''/'');
            out = rev (foldl (clean_step rooted) [] (split_slash p))
        in if rooted then CHR ''/'' # join_slash out
           else if out = [] then ''.''
           else join_slash out)"

definition Join :: "string list \<Rightarrow> string" where
  "Join elem =
     (let es = filter (\<lambda>e. e \<noteq> []) elem
      in if es = [] then [] else Clean (join_slash es))"

definition TrimPrefix :: "string \<Rightarrow> string \<Rightarrow> string" where
  "TrimPrefix s pre = (if take (length pre) s = pre then drop (length pre) s else s)"

subsection \<open>Configuration\<close>

text \<open>The fields of \<open>config.GCSConfig\<close> that the methods read.\<close>

record GCSConfig =
  Bucket :: string
  Path :: string
  ObjectDiskPath :: string
  StorageClass :: string
  ObjectLabels :: "(string \<times> string) list"
  ClientPoolSize :: int

subsection \<open>The listing prefix of \<open>Walk\<close>\<close>

text \<open>Lines 146 to 154 of \<open>Walk\<close>: the root, the prefix and the delimiter of the query.\<close>

definition walk_rootPath :: "GCSConfig \<Rightarrow> string \<Rightarrow> string" where
  "walk_rootPath cfg gcsPath = Join [Path cfg, gcsPath]"

definition walk_prefix :: "GCSConfig \<Rightarrow> string \<Rightarrow> string" where
  "walk_prefix cfg gcsPath =
     (let rootPath = walk_rootPath cfg gcsPath
      in if rootPath = ''/'' then [] else rootPath @ ''/'')"

definition walk_delimiter :: "bool \<Rightarrow> string" where
  "walk_delimiter recursive = (if \<not> recursive then ''/'' else [])"

subsection \<open>The client pool\<close>

text \<open>
  Modelled from the spec: the pool is the library \<open>go-commons-pool\<close>, which is not part
  of the repository. Section 4.1 of the specification gives its contract: \<open>acquire\<close>
  hands out an idle handle, or makes a new one through the factory when none is idle and
  the number of live handles is below the maximum; \<open>release\<close> puts a handle back into
  the idle set; \<open>invalidate\<close> destroys it and removes it from the accounting for good.
  A handle is a number; \<open>created\<close> counts the handles made so far, so the next one is
  new. An acquire that would block for ever ends with the caller's context: it returns
  \<open>PoolExhausted\<close>. \<open>make_err\<close> is the failure of the factory (\<open>storage.NewClient\<close>),
  if it fails. \<open>handed_out\<close> records, oldest first, every handle an acquire has given
  out; nothing reads it but the theorems.
\<close>

type_synonym handle = nat

record pool =
  idle :: "handle list"
  borrowed :: "handle list"
  destroyed :: "handle list"
  created :: nat
  MaxTotal :: int
  make_err :: "error option"
  handed_out :: "handle list"

definition BorrowObject :: "pool \<Rightarrow> error + (handle \<times> pool)" where
  "BorrowObject p =
     (case idle p of
        h # hs \<Rightarrow>
          Inr (h, p\<lparr>idle := hs, borrowed := h # borrowed p,
                     handed_out := handed_out p @ [h]\<rparr>)
      | [] \<Rightarrow>
          if int (length (borrowed p)) < MaxTotal p then
            (case make_err p of
               Some e \<Rightarrow> Inl e
             | None \<Rightarrow> Inr (created p,
                 p\<lparr>borrowed := created p # borrowed p, created := Suc (created p),
                   handed_out := handed_out p @ [created p]\<rparr>))
          else Inl PoolExhausted)"

definition ReturnObject :: "handle \<Rightarrow> pool \<Rightarrow> pool" where
  "ReturnObject h p =
     (if h \<in> set (borrowed p)
      then p\<lparr>borrowed := remove1 h (borrowed p), idle := h # idle p\<rparr>
      else p)"

definition InvalidateObject :: "handle \<Rightarrow> pool \<Rightarrow> pool" where
  "InvalidateObject h p =
     (if h \<in> set (borrowed p)
      then p\<lparr>borrowed := remove1 h (borrowed p), destroyed := h # destroyed p\<rparr>
      else p)"

record GCS =
  Config :: GCSConfig
  clientPool :: pool

subsection \<open>The bucket\<close>

text \<open>
  Modelled from the spec: the remote object store is the service behind
  \<open>cloud.google.com/go/storage\<close>, outside the repository. It is a flat list of objects
  keyed by bucket and name. Every call of the client library either meets a fault (a
  transport error given as an argument of the model) or answers from the store. A listing
  follows the glossary of the specification: its results are the object keys under the
  prefix, or, with a delimiter, the keys without a delimiter after the prefix and the
  common prefixes up to the first delimiter.
\<close>

type_synonym bytes = "8 word list"

record StoredObject =
  content :: bytes
  updated :: int
  storageClass :: string
  metadata :: "(string \<times> string) list"

type_synonym store = "((string \<times> string) \<times> StoredObject) list"

text \<open>The fields of \<open>storage.ObjectAttrs\<close> that the methods read; \<open>Size\<close> is an \<open>int64\<close>.\<close>

record ObjectAttrs =
  Prefix :: string
  Name :: string
  Size :: "64 word"
  Updated :: int

definition attrs_of :: "string \<Rightarrow> StoredObject \<Rightarrow> ObjectAttrs" where
  "attrs_of name ob =
     \<lparr>Prefix = [], Name = name, Size = of_nat (length (content ob)), Updated = updated ob\<rparr>"

definition store_put :: "string \<times> string \<Rightarrow> StoredObject \<Rightarrow> store \<Rightarrow> store" where
  "store_put k ob remote =
     (if k \<in> fst ` set remote
      then map (\<lambda>(k', ob'). if k' = k then (k', ob) else (k', ob')) remote
      else remote @ [(k, ob)])"

definition store_delete :: "string \<times> string \<Rightarrow> store \<Rightarrow> store" where
  "store_delete k remote = filter (\<lambda>(k', ob'). k' \<noteq> k) remote"

definition Object_Attrs :: "store \<Rightarrow> error option \<Rightarrow> string \<Rightarrow> string \<Rightarrow> error + ObjectAttrs" where
  "Object_Attrs remote fault bucket name =
     (case fault of
        Some e \<Rightarrow> Inl e
      | None \<Rightarrow>
          (case map_of remote (bucket, name) of
             None \<Rightarrow> Inl ErrObjectNotExist
           | Some ob \<Rightarrow> Inr (attrs_of name ob)))"

definition Object_NewReader :: "store \<Rightarrow> error option \<Rightarrow> string \<Rightarrow> string \<Rightarrow> error + bytes" where
  "Object_NewReader remote fault bucket name =
     (case fault of
        Some e \<Rightarrow> Inl e
      | None \<Rightarrow>
          (case map_of remote (bucket, name) of
             None \<Rightarrow> Inl ErrObjectNotExist
           | Some ob \<Rightarrow> Inr (content ob)))"

definition Object_Delete :: "store \<Rightarrow> error option \<Rightarrow> string \<Rightarrow> string \<Rightarrow> error option \<times> store" where
  "Object_Delete remote fault bucket name =
     (case fault of
        Some e \<Rightarrow> (Some e, remote)
      | None \<Rightarrow>
          (case map_of remote (bucket, name) of
             None \<Rightarrow> (Some ErrObjectNotExist, remote)
           | Some ob \<Rightarrow> (None, store_delete (bucket, name) remote)))"

definition Copier_Run ::
  "store \<Rightarrow> error option \<Rightarrow> string \<times> string \<Rightarrow> string \<times> string \<Rightarrow> error option \<times> store" where
  "Copier_Run remote fault src dst =
     (case fault of
        Some e \<Rightarrow> (Some e, remote)
      | None \<Rightarrow>
          (case map_of remote src of
             None \<Rightarrow> (Some ErrObjectNotExist, remote)
           | Some ob \<Rightarrow> (None, store_put dst ob remote)))"

text \<open>The shortest prefix of \<open>s\<close> that ends with the delimiter \<open>d\<close>, if \<open>d\<close> occurs in \<open>s\<close>.\<close>

fun upto_delim :: "string \<Rightarrow> string \<Rightarrow> string option" where
  "upto_delim d [] = None"
| "upto_delim d (c # cs) =
     (if take (length d) (c # cs) = d then Some d
      else map_option ((#) c) (upto_delim d cs))"

definition under_prefix :: "string \<Rightarrow> string \<Rightarrow> string \<times> string \<Rightarrow> bool" where
  "under_prefix bucket prefix k = (fst k = bucket \<and> take (length prefix) (snd k) = prefix)"

definition Bucket_Objects :: "store \<Rightarrow> string \<Rightarrow> string \<Rightarrow> string \<Rightarrow> ObjectAttrs list" where
  "Bucket_Objects remote bucket prefix delimiter =
     (let found = filter (\<lambda>(k, ob). under_prefix bucket prefix k) remote;
          rolled = (\<lambda>((b, name), ob).
            if delimiter = [] then None
            else upto_delim delimiter (drop (length prefix) name));
          items = map (\<lambda>((b, name), ob). attrs_of name ob)
                    (filter (\<lambda>e. rolled e = None) found);
          prefixes = remdups (concat (map (\<lambda>e. case rolled e of
                         None \<Rightarrow> [] | Some r \<Rightarrow> [prefix @ r]) found))
      in items @ map (\<lambda>p. \<lparr>Prefix = p, Name = [], Size = 0, Updated = 0\<rparr>) prefixes)"

text \<open>
  The cursor of a listing is the list of the results of its successive \<open>Next\<close> calls; past
  the end of the list \<open>Next\<close> answers \<open>iterator.Done\<close>. A fault \<open>(n, e)\<close> makes the call
  after the first \<open>n\<close> items fail with \<open>e\<close>.
\<close>

definition Objects_it ::
  "store \<Rightarrow> (nat \<times> error) option \<Rightarrow> string \<Rightarrow> string \<Rightarrow> string \<Rightarrow> (error + ObjectAttrs) list" where
  "Objects_it remote fault bucket prefix delimiter =
     (let items = Bucket_Objects remote bucket prefix delimiter
      in case fault of
           None \<Rightarrow> map Inr items
         | Some (n, e) \<Rightarrow> map Inr (take n items) @ [Inl e])"

subsection \<open>Remote file descriptors\<close>

text \<open>\<open>gcsFile\<close>, the implementation of \<open>RemoteFile\<close>; \<open>lastModified\<close> is an instant.\<close>

record gcsFile =
  gf_size :: "64 word"
  gf_lastModified :: int
  gf_name :: string

subsection \<open>\<open>Walk\<close>\<close>

text \<open>
  The callback \<open>process\<close> belongs to the caller: it reads and changes the caller's state
  \<open>'s\<close> and returns an error or none. The loop of lines 159 to 186 reads the cursor until
  it is done, fails, or the callback fails.
\<close>

type_synonym 's visitor = "'s \<Rightarrow> gcsFile \<Rightarrow> error option \<times> 's"

fun walk_loop ::
  "'s visitor \<Rightarrow> string \<Rightarrow> handle \<Rightarrow> (error + ObjectAttrs) list \<Rightarrow> GCS \<Rightarrow> 's
     \<Rightarrow> error option \<times> GCS \<times> 's" where
  "walk_loop process rootPath pClientObj [] gcs s =
     (None, gcs\<lparr>clientPool := ReturnObject pClientObj (clientPool gcs)\<rparr>, s)"
| "walk_loop process rootPath pClientObj (Inl err # it) gcs s =
     (if errors_Is err IteratorDone
      then (None, gcs\<lparr>clientPool := ReturnObject pClientObj (clientPool gcs)\<rparr>, s)
      else (Some err, gcs\<lparr>clientPool := InvalidateObject pClientObj (clientPool gcs)\<rparr>, s))"
| "walk_loop process rootPath pClientObj (Inr object # it) gcs s =
     (if Prefix object \<noteq> [] then
        (case process s \<lparr>gf_size = 0, gf_lastModified = 0,
                          gf_name = TrimPrefix (Prefix object) rootPath\<rparr> of
           (Some err, s') \<Rightarrow>
             (Some err, gcs\<lparr>clientPool := InvalidateObject pClientObj (clientPool gcs)\<rparr>, s')
         | (None, s') \<Rightarrow> walk_loop process rootPath pClientObj it gcs s')
      else
        (case process s \<lparr>gf_size = Size object, gf_lastModified = Updated object,
                          gf_name = TrimPrefix (Name object) rootPath\<rparr> of
           (Some err, s') \<Rightarrow>
             (Some err, gcs\<lparr>clientPool := InvalidateObject pClientObj (clientPool gcs)\<rparr>, s')
         | (None, s') \<Rightarrow> walk_loop process rootPath pClientObj it gcs s'))"

text \<open>
  \<open>Objects\<close> is the listing call of the bucket handle: it takes the bucket, the prefix
  and the delimiter of the query and gives the cursor.
\<close>

type_synonym listing = "string \<Rightarrow> string \<Rightarrow> string \<Rightarrow> (error + ObjectAttrs) list"

definition Walk ::
  "GCS \<Rightarrow> listing \<Rightarrow> string \<Rightarrow> bool \<Rightarrow> 's visitor \<Rightarrow> 's \<Rightarrow> error option \<times> GCS \<times> 's" where
  "Walk gcs Objects gcsPath recursive process s =
     (case BorrowObject (clientPool gcs) of
        Inl err \<Rightarrow> (Some err, gcs, s)
      | Inr (pClientObj, pool1) \<Rightarrow>
          walk_loop process (walk_rootPath (Config gcs) gcsPath) pClientObj
            (Objects (Bucket (Config gcs))
               (walk_prefix (Config gcs) gcsPath) (walk_delimiter recursive))
            (gcs\<lparr>clientPool := pool1\<rparr>) s)"

subsection \<open>\<open>GetFileReader\<close> and \<open>GetFileReaderWithLocalPath\<close>\<close>

text \<open>The reader that is returned is the byte stream of the object.\<close>

definition GetFileReader :: "GCS \<Rightarrow> store \<Rightarrow> error option \<Rightarrow> string \<Rightarrow> (error + bytes) \<times> GCS" where
  "GetFileReader gcs remote fault key =
     (case BorrowObject (clientPool gcs) of
        Inl err \<Rightarrow> (Inl err, gcs)
      | Inr (pClientObj, pool1) \<Rightarrow>
          (case Object_NewReader remote fault (Bucket (Config gcs))
                  (Join [Path (Config gcs), key]) of
             Inl err \<Rightarrow> (Inl err, gcs\<lparr>clientPool := InvalidateObject pClientObj pool1\<rparr>)
           | Inr reader \<Rightarrow> (Inr reader, gcs\<lparr>clientPool := ReturnObject pClientObj pool1\<rparr>)))"

definition GetFileReaderWithLocalPath ::
  "GCS \<Rightarrow> store \<Rightarrow> error option \<Rightarrow> string \<Rightarrow> string \<Rightarrow> (error + bytes) \<times> GCS" where
  "GetFileReaderWithLocalPath gcs remote fault key localPath = GetFileReader gcs remote fault key"

subsection \<open>\<open>PutFile\<close>\<close>

text \<open>
  The input stream \<open>r\<close> holds the bytes still to be read and the error, if any, that ends
  it in the place of \<open>io.EOF\<close>. A \<open>Read\<close> into a buffer of \<open>n\<close> bytes gives the next \<open>n\<close>
  bytes, or fewer at the end.
\<close>

record Reader =
  r_data :: bytes
  r_err :: "error option"

definition Reader_Read :: "Reader \<Rightarrow> nat \<Rightarrow> (bytes \<times> error option) \<times> Reader" where
  "Reader_Read r n =
     (if r_data r = [] then (([], Some (case r_err r of None \<Rightarrow> EOF | Some e \<Rightarrow> e)), r)
      else ((take n (r_data r), None), r\<lparr>r_data := drop n (r_data r)\<rparr>))"

text \<open>
  The write stream of an object gathers the bytes written to it; \<open>Close\<close> finalizes the
  object. A fault \<open>(k, e)\<close> makes the \<open>Write\<close> call number \<open>k\<close> fail with \<open>e\<close>. The
  error of a failed write stays with the writer, in \<open>w_err\<close>: every later \<open>Write\<close> and
  the \<open>Close\<close> report it, since the error of \<open>Close\<close> is what tells whether the upload
  succeeded. \<open>Close\<close> may also fail by a fault of its own. After a \<open>Close\<close> that failed
  it is not determined whether the object is in the bucket: \<open>durable\<close> tells which of
  the two happened.
\<close>

record Writer =
  w_bucket :: string
  w_name :: string
  w_StorageClass :: string
  w_Metadata :: "(string \<times> string) list"
  w_data :: bytes
  w_calls :: nat
  w_fault :: "(nat \<times> error) option"
  w_err :: "error option"

definition Writer_Write :: "Writer \<Rightarrow> bytes \<Rightarrow> (nat \<times> error option) \<times> Writer" where
  "Writer_Write w p =
     (case w_err w of
        Some e \<Rightarrow> ((0, Some e), w\<lparr>w_calls := Suc (w_calls w)\<rparr>)
      | None \<Rightarrow>
          (case w_fault w of
             None \<Rightarrow>
               ((length p, None), w\<lparr>w_data := w_data w @ p, w_calls := Suc (w_calls w)\<rparr>)
           | Some (k, e) \<Rightarrow>
               if w_calls w = k
               then ((0, Some e), w\<lparr>w_calls := Suc (w_calls w), w_err := Some e\<rparr>)
               else ((length p, None),
                     w\<lparr>w_data := w_data w @ p, w_calls := Suc (w_calls w)\<rparr>)))"

definition finalized :: "Writer \<Rightarrow> int \<Rightarrow> store \<Rightarrow> store" where
  "finalized w now remote =
     store_put (w_bucket w, w_name w)
       \<lparr>content = w_data w, updated = now,
        storageClass = w_StorageClass w, metadata = w_Metadata w\<rparr> remote"

definition Writer_Close ::
  "Writer \<Rightarrow> store \<Rightarrow> error option \<Rightarrow> bool \<Rightarrow> int \<Rightarrow> error option \<times> store" where
  "Writer_Close w remote fault durable now =
     (case w_err w of
        Some e \<Rightarrow> (Some e, if durable then finalized w now remote else remote)
      | None \<Rightarrow>
          (case fault of
             Some e \<Rightarrow> (Some e, if durable then finalized w now remote else remote)
           | None \<Rightarrow> (None, finalized w now remote)))"

text \<open>
  \<open>io.CopyBuffer\<close> of the Go standard library, its loop over the buffer: read a chunk,
  write it, stop at the first error; \<open>io.EOF\<close> from the input is the regular end. An
  empty buffer is a panic of the library, the result \<open>Inl\<close> here.
\<close>

function copyBuffer ::
  "nat \<Rightarrow> Writer \<Rightarrow> Reader \<Rightarrow> 64 word \<Rightarrow> string + ((64 word \<times> error option) \<times> Writer \<times> Reader)" where
  "copyBuffer n dst src written =
     (if n = 0 then Inl ''empty buffer in CopyBuffer''
      else
        (case Reader_Read src n of
           ((p, er), src') \<Rightarrow>
             if p \<noteq> [] then
               (case Writer_Write dst p of
                  ((nw, ew), dst') \<Rightarrow>
                    if ew \<noteq> None then Inr ((written + of_nat nw, ew), dst', src')
                    else if length p \<noteq> nw then
                      Inr ((written + of_nat nw, Some ErrShortWrite), dst', src')
                    else if er \<noteq> None then
                      Inr ((written + of_nat nw, if er = Some EOF then None else er), dst', src')
                    else copyBuffer n dst' src' (written + of_nat nw))
             else if er \<noteq> None then
               Inr ((written, if er = Some EOF then None else er), dst, src')
             else copyBuffer n dst src' written))"
  by pat_completeness auto
termination
  by (relation "measure (\<lambda>(n, dst, src, written). length (r_data src))")
     (auto simp: Reader_Read_def split: if_splits)

declare copyBuffer.simps [simp del]

text \<open>
  \<open>PutFile\<close>, lines 210 to 236. The deferred function closes the writer after the copy
  and before \<open>PutFile\<close> returns; it has no access to the result of \<open>PutFile\<close>, which
  is the error of the copy. \<open>wfault\<close> and \<open>cfault\<close> are the faults of the writes and of
  the closing, \<open>durable\<close> the fate of the object after a closing that failed, \<open>now\<close> the
  time the bucket stamps on the object. \<open>Inl\<close> is a panic of the copy.
\<close>

definition NewWriter :: "GCSConfig \<Rightarrow> string \<Rightarrow> (nat \<times> error) option \<Rightarrow> Writer" where
  "NewWriter cfg key wfault =
     \<lparr>w_bucket = Bucket cfg, w_name = key, w_StorageClass = StorageClass cfg,
      w_Metadata = (if length (ObjectLabels cfg) > 0 then ObjectLabels cfg else []),
      w_data = [], w_calls = 0, w_fault = wfault, w_err = None\<rparr>"

definition PutFile ::
  "GCS \<Rightarrow> store \<Rightarrow> (nat \<times> error) option \<Rightarrow> error option \<Rightarrow> bool \<Rightarrow> int \<Rightarrow> string \<Rightarrow> Reader
     \<Rightarrow> string + (error option \<times> GCS \<times> store)" where
  "PutFile gcs remote wfault cfault durable now key r =
     (case BorrowObject (clientPool gcs) of
        Inl err \<Rightarrow> Inr (Some err, gcs, remote)
      | Inr (pClientObj, pool1) \<Rightarrow>
          (case copyBuffer (512 * 1024)
                  (NewWriter (Config gcs) (Join [Path (Config gcs), key]) wfault) r 0 of
             Inl msg \<Rightarrow> Inl msg
           | Inr ((written, err), writer, r') \<Rightarrow>
               (case Writer_Close writer remote cfault durable now of
                  (Some cerr, remote') \<Rightarrow>
                    Inr (err, gcs\<lparr>clientPool := InvalidateObject pClientObj pool1\<rparr>, remote')
                | (None, remote') \<Rightarrow>
                    Inr (err, gcs\<lparr>clientPool := ReturnObject pClientObj pool1\<rparr>, remote'))))"

subsection \<open>\<open>StatFile\<close>, \<open>deleteKey\<close> and \<open>CopyObject\<close>\<close>

definition StatFile :: "GCS \<Rightarrow> store \<Rightarrow> error option \<Rightarrow> string \<Rightarrow> (error + gcsFile) \<times> GCS" where
  "StatFile gcs remote fault key =
     (case BorrowObject (clientPool gcs) of
        Inl err \<Rightarrow> (Inl err, gcs)
      | Inr (pClientObj, pool1) \<Rightarrow>
          (case Object_Attrs remote fault (Bucket (Config gcs))
                  (Join [Path (Config gcs), key]) of
             Inl err \<Rightarrow>
               if errors_Is err ErrObjectNotExist
               then (Inl ErrNotFound, gcs\<lparr>clientPool := pool1\<rparr>)
               else (Inl err, gcs\<lparr>clientPool := InvalidateObject pClientObj pool1\<rparr>)
           | Inr objAttr \<Rightarrow>
               (Inr \<lparr>gf_size = Size objAttr, gf_lastModified = Updated objAttr,
                     gf_name = Name objAttr\<rparr>,
                gcs\<lparr>clientPool := ReturnObject pClientObj pool1\<rparr>)))"

definition deleteKey :: "GCS \<Rightarrow> store \<Rightarrow> error option \<Rightarrow> string \<Rightarrow> error option \<times> GCS \<times> store" where
  "deleteKey gcs remote fault key =
     (case BorrowObject (clientPool gcs) of
        Inl err \<Rightarrow> (Some err, gcs, remote)
      | Inr (pClientObj, pool1) \<Rightarrow>
          (case Object_Delete remote fault (Bucket (Config gcs)) key of
             (Some err, remote') \<Rightarrow>
               (Some err, gcs\<lparr>clientPool := InvalidateObject pClientObj pool1\<rparr>, remote')
           | (None, remote') \<Rightarrow>
               (None, gcs\<lparr>clientPool := ReturnObject pClientObj pool1\<rparr>, remote')))"

definition DeleteFile :: "GCS \<Rightarrow> store \<Rightarrow> error option \<Rightarrow> string \<Rightarrow> error option \<times> GCS \<times> store" where
  "DeleteFile gcs remote fault key = deleteKey gcs remote fault (Join [Path (Config gcs), key])"

definition DeleteFileFromObjectDiskBackup ::
  "GCS \<Rightarrow> store \<Rightarrow> error option \<Rightarrow> string \<Rightarrow> error option \<times> GCS \<times> store" where
  "DeleteFileFromObjectDiskBackup gcs remote fault key =
     deleteKey gcs remote fault (Join [ObjectDiskPath (Config gcs), key])"

text \<open>\<open>afault\<close> is the fault of the attributes call, \<open>cfault\<close> the one of the copy.\<close>

definition CopyObject ::
  "GCS \<Rightarrow> store \<Rightarrow> error option \<Rightarrow> error option \<Rightarrow> string \<Rightarrow> string \<Rightarrow> string
     \<Rightarrow> (error + 64 word) \<times> GCS \<times> store" where
  "CopyObject gcs remote afault cfault srcBucket srcKey dstKey =
     (case BorrowObject (clientPool gcs) of
        Inl err \<Rightarrow> (Inl err, gcs, remote)
      | Inr (pClientObj, pool1) \<Rightarrow>
          (case Object_Attrs remote afault srcBucket srcKey of
             Inl err \<Rightarrow>
               (Inl err, gcs\<lparr>clientPool := InvalidateObject pClientObj pool1\<rparr>, remote)
           | Inr attrs \<Rightarrow>
               (case Copier_Run remote cfault (srcBucket, srcKey)
                       (Bucket (Config gcs), Join [ObjectDiskPath (Config gcs), dstKey]) of
                  (Some err, remote') \<Rightarrow>
                    (Inl err, gcs\<lparr>clientPool := InvalidateObject pClientObj pool1\<rparr>, remote')
                | (None, remote') \<Rightarrow>
                    (Inr (Size attrs),
                     gcs\<lparr>clientPool := ReturnObject pClientObj pool1\<rparr>, remote'))))"

subsection \<open>The diagnostic transport\<close>

text \<open>
  A request and a response as far as \<open>RoundTrip\<close> reads them, with a body for the rest.
  A \<open>*http.Response\<close> may be nil: it is an option. The base transport is any function
  from requests to a response and an error. \<open>RoundTrip\<close> returns what it returns and the
  lines it logged; reading the header of a nil response is a panic, \<open>Inl\<close>.
\<close>

record Request =
  Method :: string
  URL :: string
  Header :: "(string \<times> string list) list"
  Body :: bytes

record Response =
  StatusCode :: int
  RespHeader :: "(string \<times> string list) list"
  RespBody :: bytes

datatype log_line = Info string | Errorf string error

definition header_lines :: "(string \<times> string list) list \<Rightarrow> string" where
  "header_lines hs = concat (map (\<lambda>(h, vals). concat (map (\<lambda>v. h @ '': '' @ v @ [CHR 0x0A]) vals)) hs)"

definition RoundTrip ::
  "(Request \<Rightarrow> Response option \<times> error option) \<Rightarrow> Request
     \<Rightarrow> (string + (Response option \<times> error option)) \<times> log_line list" where
  "RoundTrip base r =
     (let logMsg = ''>>> [GCS_REQUEST] >>> '' @ Method r @ '' '' @ URL r @ [CHR 0x0A]
                     @ header_lines (Header r);
          log1 = [Info logMsg]
      in case base r of
           (resp, Some err) \<Rightarrow> (Inr (resp, Some err), log1 @ [Errorf ''GCS_ERROR: '' err])
         | (None, None) \<Rightarrow> (Inl ''nil pointer dereference'', log1)
         | (Some rs, None) \<Rightarrow>
             (Inr (Some rs, None),
              log1 @ [Info (''<<< [GCS_RESPONSE] <<< '' @ Method r @ '' '' @ URL r @ [CHR 0x0A]
                            @ header_lines (RespHeader rs))]))"

subsection \<open>What \<open>Walk\<close> shows to the callback\<close>

text \<open>
  The descriptor built for one result of the cursor, and the visits of a run of results
  in order up to the first error of the callback.
\<close>

definition walk_entry :: "string \<Rightarrow> ObjectAttrs \<Rightarrow> gcsFile" where
  "walk_entry rootPath object =
     (if Prefix object \<noteq> []
      then \<lparr>gf_size = 0, gf_lastModified = 0, gf_name = TrimPrefix (Prefix object) rootPath\<rparr>
      else \<lparr>gf_size = Size object, gf_lastModified = Updated object,
            gf_name = TrimPrefix (Name object) rootPath\<rparr>)"

fun visit_all :: "'s visitor \<Rightarrow> string \<Rightarrow> ObjectAttrs list \<Rightarrow> 's \<Rightarrow> error option \<times> 's" where
  "visit_all process rootPath [] s = (None, s)"
| "visit_all process rootPath (object # objects) s =
     (case process s (walk_entry rootPath object) of
        (Some err, s') \<Rightarrow> (Some err, s')
      | (None, s') \<Rightarrow> visit_all process rootPath objects s')"

text \<open>A callback that keeps the list of the entries it was shown and never fails.\<close>

definition collect :: "gcsFile list visitor" where
  "collect s f = (None, s @ [f])"

subsection \<open>Sequences of operations\<close>

text \<open>
  One call of a method with the faults the bucket meets during it. The world is the
  client, the bucket and the state of the caller of \<open>Walk\<close>.
\<close>

datatype 's op =
    OpWalk "(nat \<times> error) option" string bool "'s visitor"
  | OpGetFileReader "error option" string
  | OpPutFile "(nat \<times> error) option" "error option" bool int string Reader
  | OpStatFile "error option" string
  | OpDeleteKey "error option" string
  | OpCopyObject "error option" "error option" string string string

type_synonym 's world = "GCS \<times> store \<times> 's"

fun run_op :: "'s world \<Rightarrow> 's op \<Rightarrow> string + (error option \<times> 's world)" where
  "run_op (gcs, remote, s) (OpWalk fault gcsPath recursive process) =
     (case Walk gcs (Objects_it remote fault) gcsPath recursive process s of
        (err, gcs', s') \<Rightarrow> Inr (err, gcs', remote, s'))"
| "run_op (gcs, remote, s) (OpGetFileReader fault key) =
     (case GetFileReader gcs remote fault key of
        (Inl err, gcs') \<Rightarrow> Inr (Some err, gcs', remote, s)
      | (Inr reader, gcs') \<Rightarrow> Inr (None, gcs', remote, s))"
| "run_op (gcs, remote, s) (OpPutFile wfault cfault durable now key r) =
     (case PutFile gcs remote wfault cfault durable now key r of
        Inl msg \<Rightarrow> Inl msg
      | Inr (err, gcs', remote') \<Rightarrow> Inr (err, gcs', remote', s))"
| "run_op (gcs, remote, s) (OpStatFile fault key) =
     (case StatFile gcs remote fault key of
        (Inl err, gcs') \<Rightarrow> Inr (Some err, gcs', remote, s)
      | (Inr file, gcs') \<Rightarrow> Inr (None, gcs', remote, s))"
| "run_op (gcs, remote, s) (OpDeleteKey fault key) =
     (case deleteKey gcs remote fault key of
        (err, gcs', remote') \<Rightarrow> Inr (err, gcs', remote', s))"
| "run_op (gcs, remote, s) (OpCopyObject afault cfault srcBucket srcKey dstKey) =
     (case CopyObject gcs remote afault cfault srcBucket srcKey dstKey of
        (Inl err, gcs', remote') \<Rightarrow> Inr (Some err, gcs', remote', s)
      | (Inr n, gcs', remote') \<Rightarrow> Inr (None, gcs', remote', s))"

fun run_ops :: "'s world \<Rightarrow> 's op list \<Rightarrow> string + 's world" where
  "run_ops w [] = Inr w"
| "run_ops w (x # xs) =
     (case run_op w x of Inl msg \<Rightarrow> Inl msg | Inr (err, w') \<Rightarrow> run_ops w' xs)"

text \<open>
  A write of the copy of \<open>PutFile\<close> fails: the writer holds an error when the copy is
  over.
\<close>

definition write_fails :: "GCS \<Rightarrow> (nat \<times> error) option \<Rightarrow> string \<Rightarrow> Reader \<Rightarrow> bool" where
  "write_fails gcs wfault key r =
     (case copyBuffer (512 * 1024)
             (NewWriter (Config gcs) (Join [Path (Config gcs), key]) wfault) r 0 of
        Inl msg \<Rightarrow> False
      | Inr (res, writer, r') \<Rightarrow> w_err writer \<noteq> None)"

text \<open>
  The call of the bucket that an operation makes on its borrowed handle fails: for
  \<open>Walk\<close> the callback returns an error on one of the results of the cursor, or the
  cursor ends with an error that is not \<open>iterator.Done\<close>; then the opening of the reader,
  a write or the closing of the writer, the attributes for another reason than a missing
  object, the deletion, the attributes or the copy of \<open>CopyObject\<close>.
\<close>

fun call_fails :: "'s world \<Rightarrow> 's op \<Rightarrow> bool" where
  "call_fails (gcs, remote, s) (OpWalk fault gcsPath recursive process) =
     (let items = Bucket_Objects remote (Bucket (Config gcs))
                    (walk_prefix (Config gcs) gcsPath) (walk_delimiter recursive);
          rootPath = walk_rootPath (Config gcs) gcsPath
      in case fault of
           None \<Rightarrow> fst (visit_all process rootPath items s) \<noteq> None
         | Some (n, e) \<Rightarrow>
             fst (visit_all process rootPath (take n items) s) \<noteq> None
             \<or> \<not> errors_Is e IteratorDone)"
| "call_fails (gcs, remote, s) (OpGetFileReader fault key) =
     (case Object_NewReader remote fault (Bucket (Config gcs)) (Join [Path (Config gcs), key]) of
        Inl e \<Rightarrow> True | Inr reader \<Rightarrow> False)"
| "call_fails (gcs, remote, s) (OpPutFile wfault cfault durable now key r) =
     (write_fails gcs wfault key r \<or> cfault \<noteq> None)"
| "call_fails (gcs, remote, s) (OpStatFile fault key) =
     (case Object_Attrs remote fault (Bucket (Config gcs)) (Join [Path (Config gcs), key]) of
        Inl e \<Rightarrow> \<not> errors_Is e ErrObjectNotExist | Inr attrs \<Rightarrow> False)"
| "call_fails (gcs, remote, s) (OpDeleteKey fault key) =
     (fst (Object_Delete remote fault (Bucket (Config gcs)) key) \<noteq> None)"
| "call_fails (gcs, remote, s) (OpCopyObject afault cfault srcBucket srcKey dstKey) =
     (case Object_Attrs remote afault srcBucket srcKey of
        Inl e \<Rightarrow> True
      | Inr attrs \<Rightarrow>
          fst (Copier_Run remote cfault (srcBucket, srcKey)
                 (Bucket (Config gcs), Join [ObjectDiskPath (Config gcs), dstKey])) \<noteq> None)"

text \<open>
  The pool is well formed: no handle is in two of its sets or twice in one, and every
  handle it knows was made before.
\<close>

definition pool_inv :: "pool \<Rightarrow> bool" where
  "pool_inv p =
     (distinct (idle p @ borrowed p @ destroyed p) \<and>
      list_all (\<lambda>h. h < created p) (idle p @ borrowed p @ destroyed p))"

subsection \<open>Concrete configurations\<close>

definition empty_pool :: "int \<Rightarrow> pool" where
  "empty_pool n =
     \<lparr>idle = [], borrowed = [], destroyed = [], created = 0, MaxTotal = n,
      make_err = None, handed_out = []\<rparr>"

definition root_config :: GCSConfig where
  "root_config =
     \<lparr>Bucket = ''backups'', Path = [], ObjectDiskPath = ''object_disks'',
      StorageClass = ''STANDARD'', ObjectLabels = [], ClientPoolSize = 1\<rparr>"

definition root_gcs :: GCS where
  "root_gcs = \<lparr>Config = root_config, clientPool = empty_pool (ClientPoolSize root_config)\<rparr>"

definition sample_object :: StoredObject where
  "sample_object = \<lparr>content = [1, 2, 3], updated = 5, storageClass = ''STANDARD'', metadata = []\<rparr>"

definition three_keys :: store where
  "three_keys =
     [((''backups'', ''a/x''), sample_object),
      ((''backups'', ''a/y''), sample_object),
      ((''backups'', ''b''), sample_object)]"

section \<open>Properties\<close>

subsection \<open>The store and the evaluation of concrete calls\<close>

lemma map_of_replace:
  "map_of (map (\<lambda>(k', ob'). if k' = k then (k', ob) else (k', ob')) xs) j =
     (if j = k \<and> k \<in> fst ` set xs then Some ob else map_of xs j)"
proof (induction xs arbitrary: j)
  case Nil
  show ?case by simp
next
  case (Cons x xs)
  obtain k' ob' where x: "x = (k', ob')" by (cases x)
  show ?case
  proof (cases "k' = k")
    case True
    with x Cons.IH show ?thesis by simp
  next
    case False
    with x Cons.IH show ?thesis by simp
  qed
qed

lemma map_of_store_put: "map_of (store_put k ob remote) = (map_of remote)(k \<mapsto> ob)"
proof (rule ext)
  fix j
  show "map_of (store_put k ob remote) j = ((map_of remote)(k \<mapsto> ob)) j"
  proof (cases "k \<in> fst ` set remote")
    case True
    then show ?thesis by (simp add: store_put_def map_of_replace)
  next
    case False
    then have "map_of remote k = None" by (simp add: map_of_eq_None_iff)
    with False show ?thesis
      by (simp add: store_put_def map_add_def split: option.splits)
  qed
qed

lemmas eval_defs =
  root_gcs_def root_config_def empty_pool_def three_keys_def sample_object_def
  BorrowObject_def ReturnObject_def InvalidateObject_def
  Object_Attrs_def Object_NewReader_def Object_Delete_def Copier_Run_def
  store_put_def store_delete_def attrs_of_def
  Objects_it_def Bucket_Objects_def under_prefix_def
  walk_prefix_def walk_rootPath_def walk_delimiter_def
  Join_def Clean_def clean_step_def TrimPrefix_def collect_def

subsection \<open>\<open>StatFile\<close> on a missing key\<close>

text \<open>
  Claim C1: when the attributes call reports that the object is missing, \<open>StatFile\<close>
  returns \<open>ErrNotFound\<close> and the borrowed handle goes back to the idle pool, so that it
  serves the next call. The code returns \<open>ErrNotFound\<close> without giving the handle back:
  in a pool of one handle the handle stays borrowed and the next \<open>StatFile\<close>, on a key
  that exists, ends with \<open>PoolExhausted\<close>, where the same call on the fresh pool finds
  the file.
\<close>

theorem StatFile_missing_key_leaks_handle:
  "StatFile root_gcs three_keys None ''missing'' =
     (Inl ErrNotFound,
      root_gcs\<lparr>clientPool := (empty_pool 1)\<lparr>borrowed := [0], created := 1, handed_out := [0]\<rparr>\<rparr>)
   \<and> fst (StatFile (snd (StatFile root_gcs three_keys None ''missing'')) three_keys None ''b'')
       = Inl PoolExhausted
   \<and> fst (StatFile root_gcs three_keys None ''b'')
       = Inr \<lparr>gf_size = 3, gf_lastModified = 5, gf_name = ''b''\<rparr>"
  by (simp add: StatFile_def eval_defs)

subsection \<open>The listing prefix\<close>




subsection \<open>\<open>Walk\<close> over three keys\<close>



subsection \<open>\<open>CopyObject\<close>\<close>

text \<open>
  Claim C8: when \<open>CopyObject\<close> succeeds, the number it returns is the size in the
  attributes of the source object, and the object was copied to the key made of the
  object disk root and the destination path, in the configured bucket; no other key of
  the bucket changed.
\<close>

theorem CopyObject_success:
  assumes "CopyObject gcs remote afault cfault srcBucket srcKey dstKey = (Inr n, gcs', remote')"
  shows "\<exists>attrs ob.
           Object_Attrs remote afault srcBucket srcKey = Inr attrs \<and> n = Size attrs
         \<and> map_of remote (srcBucket, srcKey) = Some ob
         \<and> map_of remote' (Bucket (Config gcs), Join [ObjectDiskPath (Config gcs), dstKey]) = Some ob
         \<and> (\<forall>k. k \<noteq> (Bucket (Config gcs), Join [ObjectDiskPath (Config gcs), dstKey])
                \<longrightarrow> map_of remote' k = map_of remote k)"
proof -
  let ?dst = "(Bucket (Config gcs), Join [ObjectDiskPath (Config gcs), dstKey])"
  from assms obtain h p1 attrs where
    attrs: "Object_Attrs remote afault srcBucket srcKey = Inr attrs"
    and run: "Copier_Run remote cfault (srcBucket, srcKey) ?dst = (None, remote')"
    and n: "n = Size attrs"
    by (auto simp: CopyObject_def split: sum.splits prod.splits option.splits)
  from run obtain ob where ob: "map_of remote (srcBucket, srcKey) = Some ob"
    and remote': "remote' = store_put ?dst ob remote"
    by (auto simp: Copier_Run_def split: option.splits)
  from remote' have "map_of remote' ?dst = Some ob"
    and "\<forall>k. k \<noteq> ?dst \<longrightarrow> map_of remote' k = map_of remote k"
    by (simp_all add: map_of_store_put)
  with attrs n ob show ?thesis by blast
qed

theorem CopyObject_success_witness:
  "CopyObject root_gcs three_keys None None ''backups'' ''b'' ''disk1/b'' =
     (Inr 3, root_gcs\<lparr>clientPool := (empty_pool 1)\<lparr>idle := [0], created := 1, handed_out := [0]\<rparr>\<rparr>,
      three_keys @ [((''backups'', ''object_disks/disk1/b''), sample_object)])
   \<and> Join [ObjectDiskPath (Config root_gcs), ''disk1/b''] = ''object_disks/disk1/b''
   \<and> (\<exists>attrs ob.
           Object_Attrs three_keys None ''backups'' ''b'' = Inr attrs \<and> (3 :: 64 word) = Size attrs
         \<and> map_of three_keys (''backups'', ''b'') = Some ob
         \<and> map_of (three_keys @ [((''backups'', ''object_disks/disk1/b''), sample_object)])
              (Bucket (Config root_gcs), Join [ObjectDiskPath (Config root_gcs), ''disk1/b'']) = Some ob)"
proof -
  have run: "CopyObject root_gcs three_keys None None ''backups'' ''b'' ''disk1/b'' =
     (Inr 3, root_gcs\<lparr>clientPool := (empty_pool 1)\<lparr>idle := [0], created := 1, handed_out := [0]\<rparr>\<rparr>,
      three_keys @ [((''backups'', ''object_disks/disk1/b''), sample_object)])"
    by (simp add: CopyObject_def eval_defs)
  have key: "Join [ObjectDiskPath (Config root_gcs), ''disk1/b''] = ''object_disks/disk1/b''"
    by (simp add: eval_defs)
  from CopyObject_success [OF run] have "\<exists>attrs ob.
           Object_Attrs three_keys None ''backups'' ''b'' = Inr attrs \<and> (3 :: 64 word) = Size attrs
         \<and> map_of three_keys (''backups'', ''b'') = Some ob
         \<and> map_of (three_keys @ [((''backups'', ''object_disks/disk1/b''), sample_object)])
              (Bucket (Config root_gcs), Join [ObjectDiskPath (Config root_gcs), ''disk1/b'']) = Some ob"
    by blast
  with run key show ?thesis by blast
qed

subsection \<open>The diagnostic transport\<close>

text \<open>
  Claim C9: \<open>RoundTrip\<close> returns the response and the error of the base transport as
  they are, for every request on which the base transport keeps the contract of
  \<open>http.RoundTripper\<close> (a response or an error); what it adds is the log, which begins
  with the line of the request.
\<close>

theorem RoundTrip_returns_base_result:
  "base r \<noteq> (None, None) \<Longrightarrow>
   fst (RoundTrip base r) = Inr (base r)
   \<and> (\<exists>logged. snd (RoundTrip base r) = Info (''>>> [GCS_REQUEST] >>> '' @ Method r @ '' '' @ URL r
          @ [CHR 0x0A] @ header_lines (Header r)) # logged)"
  by (cases "base r") (auto simp: RoundTrip_def Let_def split: option.splits)

theorem RoundTrip_returns_base_result_witness:
  "(\<lambda>r. (Some \<lparr>StatusCode = 200, RespHeader = [(''Etag'', [''1''])], RespBody = Body r\<rparr>, None))
      \<lparr>Method = ''GET'', URL = ''https://storage.googleapis.com/b'', Header = [], Body = [7]\<rparr>
     \<noteq> (None, None)
   \<and> fst (RoundTrip
        (\<lambda>r. (Some \<lparr>StatusCode = 200, RespHeader = [(''Etag'', [''1''])], RespBody = Body r\<rparr>, None))
        \<lparr>Method = ''GET'', URL = ''https://storage.googleapis.com/b'', Header = [], Body = [7]\<rparr>)
     = Inr (Some \<lparr>StatusCode = 200, RespHeader = [(''Etag'', [''1''])], RespBody = [7]\<rparr>, None)"
  using RoundTrip_returns_base_result
    [of "\<lambda>r. (Some \<lparr>StatusCode = 200, RespHeader = [(''Etag'', [''1''])], RespBody = Body r\<rparr>, None)"
        "\<lparr>Method = ''GET'', URL = ''https://storage.googleapis.com/b'', Header = [], Body = [7]\<rparr>"]
  by simp

subsection \<open>\<open>GetFileReaderWithLocalPath\<close>\<close>

text \<open>
  Claim C10: \<open>GetFileReaderWithLocalPath\<close> does not look at the local path and returns
  what \<open>GetFileReader\<close> returns on the key.
\<close>

theorem GetFileReaderWithLocalPath_is_GetFileReader:
  "GetFileReaderWithLocalPath gcs remote fault key localPath = GetFileReader gcs remote fault key"
  by (simp add: GetFileReaderWithLocalPath_def)

subsection \<open>The copy loop\<close>

text \<open>
  One step of \<open>copyBuffer\<close> at the end of the input, after a write that took the whole
  chunk, and after a write that failed; then, by induction on the bytes left to read: the
  loop ends without a panic, a copy without error has appended the whole input to the
  writer, and without faults the copy has no error.
\<close>

lemma copyBuffer_at_end:
  "n \<noteq> 0 \<Longrightarrow> r_data src = [] \<Longrightarrow>
   copyBuffer n dst src written =
     Inr ((written, case r_err src of None \<Rightarrow> None | Some e \<Rightarrow> if e = EOF then None else Some e),
          dst, src)"
  by (subst copyBuffer.simps) (simp add: Reader_Read_def split: option.splits)

lemma copyBuffer_write_ok:
  "n \<noteq> 0 \<Longrightarrow> r_data src \<noteq> [] \<Longrightarrow>
   Writer_Write dst (take n (r_data src)) = ((length (take n (r_data src)), None), dst1) \<Longrightarrow>
   copyBuffer n dst src written =
     copyBuffer n dst1 (src\<lparr>r_data := drop n (r_data src)\<rparr>)
       (written + of_nat (length (take n (r_data src))))"
  by (subst copyBuffer.simps) (simp add: Reader_Read_def)

lemma copyBuffer_write_fails:
  "n \<noteq> 0 \<Longrightarrow> r_data src \<noteq> [] \<Longrightarrow>
   Writer_Write dst (take n (r_data src)) = ((nw, Some e), dst1) \<Longrightarrow>
   copyBuffer n dst src written =
     Inr ((written + of_nat nw, Some e), dst1, src\<lparr>r_data := drop n (r_data src)\<rparr>)"
  by (subst copyBuffer.simps) (simp add: Reader_Read_def)

lemma Writer_Write_cases:
  "(\<exists>e w'. Writer_Write w p = ((0, Some e), w') \<and> w_err w' = Some e) \<or>
   (w_err w = None \<and>
    Writer_Write w p =
      ((length p, None), w\<lparr>w_data := w_data w @ p, w_calls := Suc (w_calls w)\<rparr>))"
  by (auto simp: Writer_Write_def split: option.splits)

lemma copyBuffer_no_panic: "n \<noteq> 0 \<Longrightarrow> \<exists>res. copyBuffer n dst src written = Inr res"
proof (induction "length (r_data src)" arbitrary: dst src written rule: less_induct)
  case less
  show ?case
  proof (cases "r_data src = []")
    case True
    with less.prems show ?thesis by (simp add: copyBuffer_at_end)
  next
    case False
    let ?p = "take n (r_data src)"
    let ?src1 = "src\<lparr>r_data := drop n (r_data src)\<rparr>"
    have shorter: "length (r_data ?src1) < length (r_data src)"
      using False less.prems by simp
    from Writer_Write_cases [of dst ?p] show ?thesis
    proof
      assume "\<exists>e w'. Writer_Write dst ?p = ((0, Some e), w') \<and> w_err w' = Some e"
      then obtain e w' where "Writer_Write dst ?p = ((0, Some e), w')" by blast
      from copyBuffer_write_fails [OF less.prems False this] show ?thesis by blast
    next
      assume "w_err dst = None \<and> Writer_Write dst ?p =
        ((length ?p, None), dst\<lparr>w_data := w_data dst @ ?p, w_calls := Suc (w_calls dst)\<rparr>)"
      then have ok: "Writer_Write dst ?p =
        ((length ?p, None), dst\<lparr>w_data := w_data dst @ ?p, w_calls := Suc (w_calls dst)\<rparr>)"
        by simp
      show ?thesis
        using copyBuffer_write_ok [OF less.prems False ok] less.hyps [OF shorter less.prems]
        by simp
    qed
  qed
qed

lemma copyBuffer_no_error:
  "copyBuffer n dst src written = Inr ((written', None), dst', src') \<Longrightarrow>
   w_data dst' = w_data dst @ r_data src \<and> w_bucket dst' = w_bucket dst \<and>
   w_name dst' = w_name dst \<and> w_StorageClass dst' = w_StorageClass dst \<and>
   w_Metadata dst' = w_Metadata dst \<and> w_err dst' = w_err dst \<and>
   written' = written + of_nat (length (r_data src))"
proof (induction "length (r_data src)" arbitrary: dst src written rule: less_induct)
  case less
  have n0: "n \<noteq> 0"
    using less.prems by (subst (asm) copyBuffer.simps) (simp split: if_splits)
  show ?case
  proof (cases "r_data src = []")
    case True
    with less.prems n0 show ?thesis by (simp add: copyBuffer_at_end)
  next
    case False
    let ?p = "take n (r_data src)"
    let ?src1 = "src\<lparr>r_data := drop n (r_data src)\<rparr>"
    let ?dst1 = "dst\<lparr>w_data := w_data dst @ ?p, w_calls := Suc (w_calls dst)\<rparr>"
    have shorter: "length (r_data ?src1) < length (r_data src)"
      using False n0 by simp
    from Writer_Write_cases [of dst ?p] show ?thesis
    proof
      assume "\<exists>e w'. Writer_Write dst ?p = ((0, Some e), w') \<and> w_err w' = Some e"
      then obtain e w' where "Writer_Write dst ?p = ((0, Some e), w')" by blast
      from copyBuffer_write_fails [OF n0 False this] less.prems show ?thesis by simp
    next
      assume "w_err dst = None \<and> Writer_Write dst ?p = ((length ?p, None), ?dst1)"
      then have ok: "Writer_Write dst ?p = ((length ?p, None), ?dst1)" by simp
      from copyBuffer_write_ok [OF n0 False ok] less.prems
      have "copyBuffer n ?dst1 ?src1 (written + of_nat (length ?p)) = Inr ((written', None), dst', src')"
        by simp
      from less.hyps [OF shorter this]
      have "w_data dst' = (w_data dst @ ?p) @ drop n (r_data src)"
        and "w_bucket dst' = w_bucket dst" and "w_name dst' = w_name dst"
        and "w_StorageClass dst' = w_StorageClass dst" and "w_Metadata dst' = w_Metadata dst"
        and "w_err dst' = w_err dst"
        and "written' = written + of_nat (length ?p) + of_nat (length (drop n (r_data src)))"
        by simp_all
      moreover have "length ?p + length (drop n (r_data src)) = length (r_data src)"
        by simp
      then have "(of_nat (length ?p) :: 64 word) + of_nat (length (drop n (r_data src)))
                   = of_nat (length (r_data src))"
        by (metis of_nat_add)
      ultimately show ?thesis by (simp add: add.assoc)
    qed
  qed
qed

text \<open>The error that the writer holds after the copy is the error of the copy.\<close>

lemma copyBuffer_write_error:
  "w_err dst = None \<Longrightarrow> copyBuffer n dst src written = Inr ((written', err), dst', src') \<Longrightarrow>
   w_err dst' = None \<or> w_err dst' = err"
proof (induction "length (r_data src)" arbitrary: dst src written rule: less_induct)
  case less
  have n0: "n \<noteq> 0"
    using less.prems(2) by (subst (asm) copyBuffer.simps) (simp split: if_splits)
  show ?case
  proof (cases "r_data src = []")
    case True
    with less.prems n0 show ?thesis by (simp add: copyBuffer_at_end)
  next
    case False
    let ?p = "take n (r_data src)"
    let ?src1 = "src\<lparr>r_data := drop n (r_data src)\<rparr>"
    let ?dst1 = "dst\<lparr>w_data := w_data dst @ ?p, w_calls := Suc (w_calls dst)\<rparr>"
    have shorter: "length (r_data ?src1) < length (r_data src)"
      using False n0 by simp
    from Writer_Write_cases [of dst ?p] show ?thesis
    proof
      assume "\<exists>e w'. Writer_Write dst ?p = ((0, Some e), w') \<and> w_err w' = Some e"
      then obtain e w' where w: "Writer_Write dst ?p = ((0, Some e), w')"
        and e: "w_err w' = Some e" by blast
      from copyBuffer_write_fails [OF n0 False w] less.prems(2) e show ?thesis by simp
    next
      assume "w_err dst = None \<and> Writer_Write dst ?p = ((length ?p, None), ?dst1)"
      then have ok: "Writer_Write dst ?p = ((length ?p, None), ?dst1)" by simp
      from copyBuffer_write_ok [OF n0 False ok] less.prems(2)
      have run: "copyBuffer n ?dst1 ?src1 (written + of_nat (length ?p)) =
                   Inr ((written', err), dst', src')"
        by simp
      have "w_err ?dst1 = None" using less.prems(1) by simp
      from less.hyps [OF shorter this run] show ?thesis .
    qed
  qed
qed

lemma copyBuffer_succeeds:
  "n \<noteq> 0 \<Longrightarrow> w_fault dst = None \<Longrightarrow> w_err dst = None \<Longrightarrow> r_err src = None \<Longrightarrow>
   \<exists>dst' src'. copyBuffer n dst src written =
      Inr ((written + of_nat (length (r_data src)), None), dst', src')"
proof (induction "length (r_data src)" arbitrary: dst src written rule: less_induct)
  case less
  show ?case
  proof (cases "r_data src = []")
    case True
    with less.prems show ?thesis by (simp add: copyBuffer_at_end)
  next
    case False
    let ?p = "take n (r_data src)"
    let ?src1 = "src\<lparr>r_data := drop n (r_data src)\<rparr>"
    let ?dst1 = "dst\<lparr>w_data := w_data dst @ ?p, w_calls := Suc (w_calls dst)\<rparr>"
    have shorter: "length (r_data ?src1) < length (r_data src)"
      using False less.prems by simp
    have ok: "Writer_Write dst ?p = ((length ?p, None), ?dst1)"
      using less.prems by (simp add: Writer_Write_def)
    have "\<exists>dst' src'. copyBuffer n ?dst1 ?src1 (written + of_nat (length ?p)) =
      Inr ((written + of_nat (length ?p) + of_nat (length (r_data ?src1)), None), dst', src')"
      using less.hyps [OF shorter, of ?dst1 "written + of_nat (length ?p)"] less.prems by simp
    moreover have "length ?p + length (drop n (r_data src)) = length (r_data src)"
      by simp
    then have "(of_nat (length ?p) :: 64 word) + of_nat (length (drop n (r_data src)))
                 = of_nat (length (r_data src))"
      by (metis of_nat_add)
    ultimately show ?thesis
      using copyBuffer_write_ok [OF less.prems(1) False ok] by (simp add: add.assoc)
  qed
qed

text \<open>With a buffer of two bytes, five bytes go through in three writes.\<close>

lemma copyBuffer_three_chunks:
  "copyBuffer 2 (NewWriter root_config ''k'' None) \<lparr>r_data = [1, 2, 3, 4, 5], r_err = None\<rparr> 0 =
     Inr ((5, None),
          (NewWriter root_config ''k'' None)\<lparr>w_data := [1, 2, 3, 4, 5], w_calls := 3\<rparr>,
          \<lparr>r_data = [], r_err = None\<rparr>)"
  by (simp add: copyBuffer.simps Reader_Read_def Writer_Write_def NewWriter_def root_config_def)

subsection \<open>The end of a walk\<close>

lemma borrowed_after_Borrow: "BorrowObject p = Inr (h, p1) \<Longrightarrow> h \<in> set (borrowed p1)"
  by (auto simp: BorrowObject_def split: list.splits if_splits option.splits)

lemma walk_loop_step:
  "walk_loop process rootPath h (Inr object # it) gcs s =
     (case process s (walk_entry rootPath object) of
        (Some err, s') \<Rightarrow> (Some err, gcs\<lparr>clientPool := InvalidateObject h (clientPool gcs)\<rparr>, s')
      | (None, s') \<Rightarrow> walk_loop process rootPath h it gcs s')"
  by (simp add: walk_entry_def)

lemma walk_loop_visits:
  "walk_loop process rootPath h (map Inr objs @ rest) gcs s =
     (case visit_all process rootPath objs s of
        (Some e, s') \<Rightarrow> (Some e, gcs\<lparr>clientPool := InvalidateObject h (clientPool gcs)\<rparr>, s')
      | (None, s') \<Rightarrow> walk_loop process rootPath h rest gcs s')"
proof (induction objs arbitrary: s)
  case Nil
  show ?case by simp
next
  case (Cons object objs)
  obtain r s1 where p: "process s (walk_entry rootPath object) = (r, s1)"
    by (cases "process s (walk_entry rootPath object)")
  show ?case
  proof (cases r)
    case None
    with p Cons.IH [of s1] show ?thesis
      by (simp del: walk_loop.simps add: walk_loop_step)
  next
    case (Some e)
    with p show ?thesis
      by (simp del: walk_loop.simps add: walk_loop_step)
  qed
qed

text \<open>
  Claim C6: let the cursor of a walk give the objects \<open>objs\<close> and then \<open>rest\<close>. If the
  callback accepts all of \<open>objs\<close> and the cursor is then done (it is exhausted, or its next
  result is \<open>iterator.Done\<close>), \<open>Walk\<close> returns no error and the handle is idle in the pool
  again. If the cursor then gives another error, or if the callback returns an error on
  one of \<open>objs\<close>, \<open>Walk\<close> returns exactly that error and the handle is destroyed.
\<close>

theorem Walk_end_of_cursor:
  assumes borrow: "BorrowObject (clientPool gcs) = Inr (h, pool1)"
      and cursor: "Objects (Bucket (Config gcs)) (walk_prefix (Config gcs) gcsPath)
                     (walk_delimiter recursive) = map Inr objs @ rest"
      and visits: "visit_all process (walk_rootPath (Config gcs) gcsPath) objs s = (r, s')"
  shows "(r = None \<and> (rest = [] \<or> (\<exists>e more. rest = Inl e # more \<and> errors_Is e IteratorDone)) \<longrightarrow>
            Walk gcs Objects gcsPath recursive process s =
              (None, gcs\<lparr>clientPool := ReturnObject h pool1\<rparr>, s')
            \<and> h \<in> set (idle (ReturnObject h pool1)))
       \<and> (\<forall>e more. r = None \<and> rest = Inl e # more \<and> \<not> errors_Is e IteratorDone \<longrightarrow>
            Walk gcs Objects gcsPath recursive process s =
              (Some e, gcs\<lparr>clientPool := InvalidateObject h pool1\<rparr>, s')
            \<and> h \<in> set (destroyed (InvalidateObject h pool1)))
       \<and> (\<forall>e. r = Some e \<longrightarrow>
            Walk gcs Objects gcsPath recursive process s =
              (Some e, gcs\<lparr>clientPool := InvalidateObject h pool1\<rparr>, s')
            \<and> h \<in> set (destroyed (InvalidateObject h pool1)))"
proof -
  let ?g = "gcs\<lparr>clientPool := pool1\<rparr>"
  have walk: "Walk gcs Objects gcsPath recursive process s =
      (case r of
         Some e \<Rightarrow> (Some e, gcs\<lparr>clientPool := InvalidateObject h pool1\<rparr>, s')
       | None \<Rightarrow> walk_loop process (walk_rootPath (Config gcs) gcsPath) h rest ?g s')"
    using borrow cursor visits
    by (simp add: Walk_def walk_loop_visits split: option.splits)
  have held: "h \<in> set (borrowed pool1)"
    using borrow by (rule borrowed_after_Borrow)
  then have idle_again: "h \<in> set (idle (ReturnObject h pool1))"
    and gone: "h \<in> set (destroyed (InvalidateObject h pool1))"
    by (simp_all add: ReturnObject_def InvalidateObject_def)
  show ?thesis
  proof (intro conjI allI impI)
    assume a: "r = None \<and> (rest = [] \<or> (\<exists>e more. rest = Inl e # more \<and> errors_Is e IteratorDone))"
    then show "Walk gcs Objects gcsPath recursive process s =
        (None, gcs\<lparr>clientPool := ReturnObject h pool1\<rparr>, s')"
      using walk by auto
    show "h \<in> set (idle (ReturnObject h pool1))" by (rule idle_again)
  next
    fix e more
    assume "r = None \<and> rest = Inl e # more \<and> \<not> errors_Is e IteratorDone"
    then show "Walk gcs Objects gcsPath recursive process s =
        (Some e, gcs\<lparr>clientPool := InvalidateObject h pool1\<rparr>, s')"
      using walk by simp
    show "h \<in> set (destroyed (InvalidateObject h pool1))" by (rule gone)
  next
    fix e
    assume "r = Some e"
    then show "Walk gcs Objects gcsPath recursive process s =
        (Some e, gcs\<lparr>clientPool := InvalidateObject h pool1\<rparr>, s')"
      using walk by simp
    show "h \<in> set (destroyed (InvalidateObject h pool1))" by (rule gone)
  qed
qed

theorem Walk_end_of_cursor_witness:
  "Walk root_gcs (Objects_it three_keys (Some (1, BackendError ''connection reset''))) ''/'' True
     collect [] =
     (Some (BackendError ''connection reset''),
      root_gcs\<lparr>clientPool := (empty_pool 1)\<lparr>destroyed := [0], created := 1, handed_out := [0]\<rparr>\<rparr>,
      [\<lparr>gf_size = 3, gf_lastModified = 5, gf_name = ''a/x''\<rparr>])"
proof -
  let ?pool1 = "(empty_pool 1)\<lparr>borrowed := [0], created := 1, handed_out := [0]\<rparr>"
  let ?e = "BackendError ''connection reset''"
  have borrow: "BorrowObject (clientPool root_gcs) = Inr (0, ?pool1)"
    by (simp add: eval_defs)
  have cursor: "Objects_it three_keys (Some (1, ?e)) (Bucket (Config root_gcs))
       (walk_prefix (Config root_gcs) ''/'') (walk_delimiter True) =
     map Inr [\<lparr>Prefix = [], Name = ''a/x'', Size = 3, Updated = 5\<rparr>] @ [Inl ?e]"
    by (simp add: eval_defs)
  have visits: "visit_all collect (walk_rootPath (Config root_gcs) ''/'')
       [\<lparr>Prefix = [], Name = ''a/x'', Size = 3, Updated = 5\<rparr>] [] =
       (None, [\<lparr>gf_size = 3, gf_lastModified = 5, gf_name = ''a/x''\<rparr>])"
    by (simp add: eval_defs walk_entry_def)
  have inv: "InvalidateObject 0 ?pool1 =
      (empty_pool 1)\<lparr>destroyed := [0], created := 1, handed_out := [0]\<rparr>"
    by (simp add: eval_defs)
  from Walk_end_of_cursor
    [where Objects = "Objects_it three_keys (Some (1, BackendError ''connection reset''))"
       and gcs = root_gcs and gcsPath = "''/''" and recursive = True,
     OF borrow cursor visits]
  have "Walk root_gcs (Objects_it three_keys (Some (1, ?e))) ''/'' True collect [] =
     (Some ?e, root_gcs\<lparr>clientPool := InvalidateObject 0 ?pool1\<rparr>,
      [\<lparr>gf_size = 3, gf_lastModified = 5, gf_name = ''a/x''\<rparr>])"
    by simp
  then show ?thesis by (simp only: inv)
qed

subsection \<open>\<open>PutFile\<close> and the closing of the writer\<close>

lemma NewWriter_fields:
  "w_bucket (NewWriter cfg key wfault) = Bucket cfg"
  "w_name (NewWriter cfg key wfault) = key"
  "w_data (NewWriter cfg key wfault) = []"
  "w_fault (NewWriter cfg key wfault) = wfault"
  "w_err (NewWriter cfg key wfault) = None"
  by (simp_all add: NewWriter_def)

lemma PutFile_unfold:
  assumes "BorrowObject (clientPool gcs) = Inr (h, pool1)"
      and "copyBuffer (512 * 1024)
             (NewWriter (Config gcs) (Join [Path (Config gcs), key]) wfault) r 0 =
           Inr ((written, err), writer, r')"
  shows "PutFile gcs remote wfault cfault durable now key r =
     (case Writer_Close writer remote cfault durable now of
        (Some cerr, remote') \<Rightarrow> Inr (err, gcs\<lparr>clientPool := InvalidateObject h pool1\<rparr>, remote')
      | (None, remote') \<Rightarrow> Inr (err, gcs\<lparr>clientPool := ReturnObject h pool1\<rparr>, remote'))"
  using assms by (simp add: PutFile_def)

lemma Writer_Close_fails:
  "w_err w \<noteq> None \<or> fault \<noteq> None \<Longrightarrow>
   \<exists>e. Writer_Close w remote fault durable now =
          (Some e, if durable then finalized w now remote else remote)"
  by (auto simp: Writer_Close_def split: option.splits)

lemma Writer_Close_ok:
  "w_err w = None \<Longrightarrow> Writer_Close w remote None durable now = (None, finalized w now remote)"
  by (simp add: Writer_Close_def)

lemma copy_of_three_bytes:
  "copyBuffer (512 * 1024)
     (NewWriter (Config root_gcs) (Join [Path (Config root_gcs), ''k'']) None)
     \<lparr>r_data = [1, 2, 3], r_err = None\<rparr> 0 =
   Inr ((3, None),
        (NewWriter (Config root_gcs) (Join [Path (Config root_gcs), ''k'']) None)
          \<lparr>w_data := [1, 2, 3], w_calls := 1\<rparr>,
        \<lparr>r_data = [], r_err = None\<rparr>)"
proof -
  let ?w = "NewWriter (Config root_gcs) (Join [Path (Config root_gcs), ''k'']) None"
  let ?r = "\<lparr>r_data = [1, 2, 3], r_err = None\<rparr>"
  have one: "Writer_Write ?w (take (512 * 1024) (r_data ?r)) =
      ((length (take (512 * 1024) (r_data ?r)), None),
       ?w\<lparr>w_data := [1, 2, 3], w_calls := 1\<rparr>)"
    by (simp add: Writer_Write_def NewWriter_def)
  show ?thesis
    by (subst copyBuffer_write_ok [OF _ _ one]) (simp_all add: copyBuffer_at_end)
qed

text \<open>
  Claim C2: when the closing of the writer fails, \<open>PutFile\<close> returns that failure as an
  error, also when the copy reported none, and the handle is invalidated. The code
  invalidates the handle but returns the error of the copy: here the copy of three bytes
  reports no error, the closing fails, and \<open>PutFile\<close> returns no error, whether the object
  reached the bucket or not.
\<close>

theorem PutFile_drops_close_error:
  "PutFile root_gcs [] None (Some (BackendError ''close'')) False 0 ''k''
     \<lparr>r_data = [1, 2, 3], r_err = None\<rparr> =
   Inr (None,
        root_gcs\<lparr>clientPool := (empty_pool 1)\<lparr>destroyed := [0], created := 1, handed_out := [0]\<rparr>\<rparr>,
        [])
   \<and> PutFile root_gcs [] None (Some (BackendError ''close'')) True 0 ''k''
     \<lparr>r_data = [1, 2, 3], r_err = None\<rparr> =
   Inr (None,
        root_gcs\<lparr>clientPool := (empty_pool 1)\<lparr>destroyed := [0], created := 1, handed_out := [0]\<rparr>\<rparr>,
        [((''backups'', ''k''),
          \<lparr>content = [1, 2, 3], updated = 0, storageClass = ''STANDARD'', metadata = []\<rparr>)])"
proof -
  have borrow: "BorrowObject (clientPool root_gcs) =
      Inr (0, (empty_pool 1)\<lparr>borrowed := [0], created := 1, handed_out := [0]\<rparr>)"
    by (simp add: eval_defs)
  show ?thesis
    by (simp only: PutFile_unfold [OF borrow copy_of_three_bytes])
       (simp add: Writer_Close_def finalized_def NewWriter_def eval_defs)
qed

text \<open>
  In general: whenever a handle is borrowed and the closing fails by a fault of its own,
  the handle is invalidated and \<open>PutFile\<close> returns the error of the copy, which is none
  when neither the input nor a write fails.
\<close>

lemma PutFile_close_fault:
  assumes "BorrowObject (clientPool gcs) = Inr (h, pool1)"
  shows "\<exists>written err writer r' remote'.
           copyBuffer (512 * 1024)
             (NewWriter (Config gcs) (Join [Path (Config gcs), key]) wfault) r 0 =
             Inr ((written, err), writer, r')
         \<and> PutFile gcs remote wfault (Some cerr) durable now key r =
             Inr (err, gcs\<lparr>clientPool := InvalidateObject h pool1\<rparr>, remote')
         \<and> h \<in> set (destroyed (InvalidateObject h pool1))
         \<and> (wfault = None \<and> r_err r = None \<longrightarrow> err = None)"
proof -
  let ?w = "NewWriter (Config gcs) (Join [Path (Config gcs), key]) wfault"
  obtain res where "copyBuffer (512 * 1024) ?w r 0 = Inr res"
    using copyBuffer_no_panic [of "512 * 1024" ?w r 0] by auto
  then obtain written err writer r' where
    copy: "copyBuffer (512 * 1024) ?w r 0 = Inr ((written, err), writer, r')"
    by (cases res) auto
  from Writer_Close_fails [of writer "Some cerr" remote durable now]
  obtain e where "Writer_Close writer remote (Some cerr) durable now =
      (Some e, if durable then finalized writer now remote else remote)"
    by auto
  then have put: "PutFile gcs remote wfault (Some cerr) durable now key r =
      Inr (err, gcs\<lparr>clientPool := InvalidateObject h pool1\<rparr>,
           if durable then finalized writer now remote else remote)"
    by (simp add: PutFile_unfold [OF assms copy])
  have gone: "h \<in> set (destroyed (InvalidateObject h pool1))"
    using borrowed_after_Borrow [OF assms] by (simp add: InvalidateObject_def)
  have "err = None" if "wfault = None \<and> r_err r = None"
  proof -
    from that have "w_fault ?w = None" and "w_err ?w = None" and "r_err r = None"
      by (simp_all add: NewWriter_fields)
    from copyBuffer_succeeds [OF _ this, of "512 * 1024" 0] copy show ?thesis
      by auto
  qed
  with copy put gone show ?thesis by blast
qed

text \<open>A write that fails: \<open>PutFile\<close> returns its error and the handle is destroyed.\<close>

lemma PutFile_write_failure_example:
  "PutFile root_gcs [] (Some (0, BackendError ''reset'')) None False 0 ''k''
     \<lparr>r_data = [1, 2, 3], r_err = None\<rparr> =
   Inr (Some (BackendError ''reset''),
        root_gcs\<lparr>clientPool := (empty_pool 1)\<lparr>destroyed := [0], created := 1, handed_out := [0]\<rparr>\<rparr>,
        [])"
  by (simp add: PutFile_def copyBuffer.simps Reader_Read_def Writer_Write_def Writer_Close_def
        NewWriter_def eval_defs)

subsection \<open>Writing, then reading\<close>

text \<open>
  Claim C7: after a \<open>PutFile\<close> that succeeded, the reader that \<open>GetFileReader\<close> opens on
  the same path holds exactly the bytes of the input. The code lets \<open>PutFile\<close> return no
  error although the closing of the writer failed: here the object did not reach the
  bucket, and \<open>GetFileReader\<close> on the same path finds no object.
\<close>

theorem PutFile_nil_then_object_missing:
  "PutFile root_gcs [] None (Some (BackendError ''close'')) False 0 ''k''
     \<lparr>r_data = [1, 2, 3], r_err = None\<rparr> =
   Inr (None,
        root_gcs\<lparr>clientPool := (empty_pool 1)\<lparr>destroyed := [0], created := 1, handed_out := [0]\<rparr>\<rparr>,
        [])
   \<and> fst (GetFileReader
       (root_gcs\<lparr>clientPool := (empty_pool 1)\<lparr>destroyed := [0], created := 1, handed_out := [0]\<rparr>\<rparr>)
       [] None ''k'') = Inl ErrObjectNotExist"
proof -
  have borrow: "BorrowObject (clientPool root_gcs) =
      Inr (0, (empty_pool 1)\<lparr>borrowed := [0], created := 1, handed_out := [0]\<rparr>)"
    by (simp add: eval_defs)
  have put: "PutFile root_gcs [] None (Some (BackendError ''close'')) False 0 ''k''
     \<lparr>r_data = [1, 2, 3], r_err = None\<rparr> =
   Inr (None,
        root_gcs\<lparr>clientPool := (empty_pool 1)\<lparr>destroyed := [0], created := 1, handed_out := [0]\<rparr>\<rparr>,
        [])"
    by (simp only: PutFile_unfold [OF borrow copy_of_three_bytes])
       (simp add: Writer_Close_def finalized_def NewWriter_def eval_defs)
  have get: "fst (GetFileReader
       (root_gcs\<lparr>clientPool := (empty_pool 1)\<lparr>destroyed := [0], created := 1, handed_out := [0]\<rparr>\<rparr>)
       [] None ''k'') = Inl ErrObjectNotExist"
    by (simp add: GetFileReader_def eval_defs)
  from put get show ?thesis by simp
qed

text \<open>
  The chunked copy itself loses and repeats nothing: for every path and every input, of
  any length, when \<open>PutFile\<close> returns no error and the closing has no fault of its own,
  the reader that \<open>GetFileReader\<close> opens on the same path holds exactly the bytes of the
  input; and \<open>PutFile\<close> does return no error whenever a handle can be borrowed and
  neither the input nor the bucket fails.
\<close>

lemma PutFile_closed_then_GetFileReader:
  "(PutFile gcs remote wfault None durable now key r = Inr (None, gcs', remote') \<longrightarrow>
      fst (GetFileReader gcs' remote' None key) = Inr (r_data r))
   \<and> (BorrowObject (clientPool gcs) = Inr (h, pool1) \<and> r_err r = None \<longrightarrow>
      (\<exists>gcs' remote'. PutFile gcs remote None None durable now key r = Inr (None, gcs', remote')))"
proof (intro conjI impI)
  let ?key = "Join [Path (Config gcs), key]"
  assume put: "PutFile gcs remote wfault None durable now key r = Inr (None, gcs', remote')"
  let ?w = "NewWriter (Config gcs) ?key wfault"
  from put obtain h1 p1 where borrow: "BorrowObject (clientPool gcs) = Inr (h1, p1)"
    by (cases "BorrowObject (clientPool gcs)") (auto simp: PutFile_def)
  obtain res where "copyBuffer (512 * 1024) ?w r 0 = Inr res"
    using copyBuffer_no_panic [of "512 * 1024" ?w r 0] by auto
  then obtain written err writer r' where
    copy: "copyBuffer (512 * 1024) ?w r 0 = Inr ((written, err), writer, r')"
    by (cases res) auto
  from put have err: "err = None"
    by (simp add: PutFile_unfold [OF borrow copy] split: prod.splits option.splits)
  from copyBuffer_no_error [OF copy [unfolded err]]
  have writer: "w_data writer = r_data r" "w_bucket writer = Bucket (Config gcs)"
    "w_name writer = ?key" "w_err writer = None"
    by (simp_all add: NewWriter_fields)
  from put have gcs': "gcs' = gcs\<lparr>clientPool := ReturnObject h1 p1\<rparr>"
    and remote': "remote' = finalized writer now remote"
    by (simp_all add: PutFile_unfold [OF borrow copy] Writer_Close_ok [OF writer(4)])
  have stored: "map_of remote' (Bucket (Config gcs), ?key) =
      Some \<lparr>content = r_data r, updated = now,
            storageClass = w_StorageClass writer, metadata = w_Metadata writer\<rparr>"
    by (simp add: remote' finalized_def writer map_of_store_put)
  have "h1 \<in> set (borrowed p1)" using borrow by (rule borrowed_after_Borrow)
  then have "idle (ReturnObject h1 p1) = h1 # idle p1"
    by (simp add: ReturnObject_def)
  then obtain p2 where "BorrowObject (clientPool gcs') = Inr (h1, p2)"
    by (simp add: gcs' BorrowObject_def)
  then show "fst (GetFileReader gcs' remote' None key) = Inr (r_data r)"
    using stored by (simp add: GetFileReader_def Object_NewReader_def gcs')
next
  assume a: "BorrowObject (clientPool gcs) = Inr (h, pool1) \<and> r_err r = None"
  let ?w = "NewWriter (Config gcs) (Join [Path (Config gcs), key]) None"
  have "w_fault ?w = None" and "w_err ?w = None" by (simp_all add: NewWriter_fields)
  from copyBuffer_succeeds [OF _ this, of "512 * 1024" r 0] a
  obtain dst' src' where
    copy: "copyBuffer (512 * 1024) ?w r 0 = Inr ((0 + of_nat (length (r_data r)), None), dst', src')"
    by auto
  from copyBuffer_no_error [OF copy] have "w_err dst' = None"
    by (simp add: NewWriter_fields)
  from a have borrow: "BorrowObject (clientPool gcs) = Inr (h, pool1)" by simp
  show "\<exists>gcs' remote'. PutFile gcs remote None None durable now key r = Inr (None, gcs', remote')"
    by (simp add: PutFile_unfold [OF borrow copy] Writer_Close_ok [OF \<open>w_err dst' = None\<close>])
qed

subsection \<open>The pool under the operations\<close>

text \<open>
  The three transitions keep the pool well formed; a borrowed handle is never a destroyed
  one, and only \<open>InvalidateObject\<close> adds to the destroyed handles.
\<close>

lemma BorrowObject_inv:
  assumes "pool_inv p" and "BorrowObject p = Inr (h, p1)"
  shows "pool_inv p1 \<and> destroyed p1 = destroyed p \<and> h \<notin> set (destroyed p) \<and>
         handed_out p1 = handed_out p @ [h]"
proof (cases "idle p")
  case Nil
  with assms(2) have fresh: "h = created p"
    and p1: "p1 = p\<lparr>borrowed := created p # borrowed p, created := Suc (created p),
                    handed_out := handed_out p @ [created p]\<rparr>"
    by (auto simp: BorrowObject_def split: if_splits option.splits)
  from assms(1) have below: "\<forall>x \<in> set (idle p @ borrowed p @ destroyed p). x < created p"
    and dist: "distinct (idle p @ borrowed p @ destroyed p)"
    by (simp_all add: pool_inv_def list_all_iff)
  from below have new: "created p \<notin> set (idle p @ borrowed p @ destroyed p)"
    by blast
  from below have below': "\<forall>x \<in> set (idle p @ borrowed p @ destroyed p). x < Suc (created p)"
    by (simp add: less_Suc_eq)
  have "pool_inv p1"
    using Nil dist new below' by (simp add: p1 pool_inv_def list_all_iff)
  moreover have "destroyed p1 = destroyed p" by (simp add: p1)
  moreover have "h \<notin> set (destroyed p)" using new fresh by simp
  moreover have "handed_out p1 = handed_out p @ [h]" by (simp add: p1 fresh)
  ultimately show ?thesis by blast
next
  case (Cons x xs)
  with assms(2) have h: "h = x"
    and p1: "p1 = p\<lparr>idle := xs, borrowed := x # borrowed p, handed_out := handed_out p @ [x]\<rparr>"
    by (auto simp: BorrowObject_def)
  from assms(1) Cons have dist: "distinct (x # xs @ borrowed p @ destroyed p)"
    and below: "list_all (\<lambda>h. h < created p) (x # xs @ borrowed p @ destroyed p)"
    by (simp_all add: pool_inv_def)
  have "pool_inv p1"
    using dist below by (auto simp: p1 pool_inv_def)
  moreover have "destroyed p1 = destroyed p" by (simp add: p1)
  moreover have "h \<notin> set (destroyed p)" using dist h by auto
  moreover have "handed_out p1 = handed_out p @ [h]" by (simp add: p1 h)
  ultimately show ?thesis by blast
qed

lemma distinct_move:
  assumes "distinct (xs @ ys @ zs)" and "h \<in> set ys"
  shows "distinct ((h # xs) @ remove1 h ys @ zs)" and "distinct (xs @ remove1 h ys @ h # zs)"
proof -
  from assms have "h \<notin> set xs" and "h \<notin> set zs" and "h \<notin> set (remove1 h ys)"
    and "distinct xs" and "distinct (remove1 h ys)" and "distinct zs"
    and "set xs \<inter> set ys = {}" and "set xs \<inter> set zs = {}" and "set ys \<inter> set zs = {}"
    by auto
  moreover have "set (remove1 h ys) \<subseteq> set ys" by (rule set_remove1_subset)
  ultimately show "distinct ((h # xs) @ remove1 h ys @ zs)"
    and "distinct (xs @ remove1 h ys @ h # zs)"
    by auto
qed

lemma ReturnObject_inv:
  assumes "pool_inv p" and "h \<in> set (borrowed p)"
  shows "pool_inv (ReturnObject h p)" and "destroyed (ReturnObject h p) = destroyed p"
    and "handed_out (ReturnObject h p) = handed_out p" and "idle (ReturnObject h p) = h # idle p"
proof -
  from assms(1) have dist: "distinct (idle p @ borrowed p @ destroyed p)"
    and below: "\<forall>x \<in> set (idle p @ borrowed p @ destroyed p). x < created p"
    by (simp_all add: pool_inv_def list_all_iff)
  have sub: "set (remove1 h (borrowed p)) \<subseteq> set (borrowed p)" by (rule set_remove1_subset)
  from below assms(2) sub
  have "\<forall>x \<in> set ((h # idle p) @ remove1 h (borrowed p) @ destroyed p). x < created p"
    by auto
  with distinct_move(1) [OF dist assms(2)] assms(2) show "pool_inv (ReturnObject h p)"
    by (simp add: ReturnObject_def pool_inv_def list_all_iff)
  show "destroyed (ReturnObject h p) = destroyed p" "handed_out (ReturnObject h p) = handed_out p"
    "idle (ReturnObject h p) = h # idle p"
    using assms(2) by (simp_all add: ReturnObject_def)
qed

lemma InvalidateObject_inv:
  assumes "pool_inv p" and "h \<in> set (borrowed p)"
  shows "pool_inv (InvalidateObject h p)" and "destroyed (InvalidateObject h p) = h # destroyed p"
    and "handed_out (InvalidateObject h p) = handed_out p" and "idle (InvalidateObject h p) = idle p"
proof -
  from assms(1) have dist: "distinct (idle p @ borrowed p @ destroyed p)"
    and below: "\<forall>x \<in> set (idle p @ borrowed p @ destroyed p). x < created p"
    by (simp_all add: pool_inv_def list_all_iff)
  have sub: "set (remove1 h (borrowed p)) \<subseteq> set (borrowed p)" by (rule set_remove1_subset)
  from below assms(2) sub
  have "\<forall>x \<in> set (idle p @ remove1 h (borrowed p) @ h # destroyed p). x < created p"
    by auto
  with distinct_move(2) [OF dist assms(2)] assms(2) show "pool_inv (InvalidateObject h p)"
    by (simp add: InvalidateObject_def pool_inv_def list_all_iff)
  show "destroyed (InvalidateObject h p) = h # destroyed p"
    "handed_out (InvalidateObject h p) = handed_out p"
    "idle (InvalidateObject h p) = idle p"
    using assms(2) by (simp_all add: InvalidateObject_def)
qed

lemma pool_inv_destroyed_not_idle:
  "pool_inv p \<Longrightarrow> d \<in> set (destroyed p) \<Longrightarrow> d \<notin> set (idle p)"
  by (auto simp: pool_inv_def)

text \<open>What one operation may do to the pool.\<close>

lemma pool_step_keeps:
  assumes inv: "pool_inv p" and d: "d \<in> set (destroyed p)"
      and step: "p' = p \<or> (\<exists>h p1. BorrowObject p = Inr (h, p1) \<and>
                   (p' = p1 \<or> p' = ReturnObject h p1 \<or> p' = InvalidateObject h p1))"
  shows "pool_inv p' \<and> d \<in> set (destroyed p') \<and> d \<notin> set (idle p') \<and>
         (\<exists>new. handed_out p' = handed_out p @ new \<and> d \<notin> set new)"
proof -
  from step show ?thesis
  proof
    assume "p' = p"
    with inv d pool_inv_destroyed_not_idle [OF inv d] show ?thesis by simp
  next
    assume "\<exists>h p1. BorrowObject p = Inr (h, p1) \<and>
                   (p' = p1 \<or> p' = ReturnObject h p1 \<or> p' = InvalidateObject h p1)"
    then obtain h p1 where borrow: "BorrowObject p = Inr (h, p1)"
      and p': "p' = p1 \<or> p' = ReturnObject h p1 \<or> p' = InvalidateObject h p1"
      by blast
    from BorrowObject_inv [OF inv borrow]
    have b: "pool_inv p1" "destroyed p1 = destroyed p" "h \<notin> set (destroyed p)"
      "handed_out p1 = handed_out p @ [h]"
      by simp_all
    have held: "h \<in> set (borrowed p1)" using borrow by (rule borrowed_after_Borrow)
    from b(3) d have hd: "d \<noteq> h" by blast
    have d1: "d \<in> set (destroyed p1)" using d b(2) by simp
    from p' have "pool_inv p' \<and> d \<in> set (destroyed p') \<and> handed_out p' = handed_out p @ [h]"
    proof (elim disjE)
      assume "p' = p1"
      with b d1 show ?thesis by simp
    next
      assume "p' = ReturnObject h p1"
      with ReturnObject_inv [OF b(1) held] b(4) d1 show ?thesis by simp
    next
      assume "p' = InvalidateObject h p1"
      with InvalidateObject_inv [OF b(1) held] b(4) d1 show ?thesis by simp
    qed
    moreover from this have "d \<notin> set (idle p')"
      by (simp add: pool_inv_destroyed_not_idle)
    moreover have "d \<notin> set [h]" using hd by simp
    ultimately show ?thesis by blast
  qed
qed

lemma walk_loop_pool:
  "walk_loop process rootPath h it gcs s = (res, gcs', s') \<Longrightarrow>
   clientPool gcs' = (if res = None then ReturnObject h (clientPool gcs)
                      else InvalidateObject h (clientPool gcs))"
proof (induction it arbitrary: s)
  case Nil
  then show ?case by auto
next
  case (Cons x it)
  show ?case
  proof (cases x)
    case (Inl e)
    with Cons.prems show ?thesis by (auto split: if_splits)
  next
    case (Inr object)
    obtain r s1 where p: "process s (walk_entry rootPath object) = (r, s1)"
      by (cases "process s (walk_entry rootPath object)")
    show ?thesis
    proof (cases r)
      case None
      with p Inr Cons.prems have "walk_loop process rootPath h it gcs s1 = (res, gcs', s')"
        by (simp del: walk_loop.simps add: walk_loop_step)
      then show ?thesis by (rule Cons.IH)
    next
      case (Some e)
      with p Inr Cons.prems show ?thesis
        by (auto simp del: walk_loop.simps simp add: walk_loop_step)
    qed
  qed
qed

lemma Walk_pool:
  assumes "BorrowObject (clientPool gcs) = Inr (h, p1)"
      and "Walk gcs Objects gcsPath recursive process s = (res, gcs', s')"
  shows "clientPool gcs' = (if res = None then ReturnObject h p1 else InvalidateObject h p1)"
proof -
  from assms have "walk_loop process (walk_rootPath (Config gcs) gcsPath) h
      (Objects (Bucket (Config gcs)) (walk_prefix (Config gcs) gcsPath) (walk_delimiter recursive))
      (gcs\<lparr>clientPool := p1\<rparr>) s = (res, gcs', s')"
    by (simp add: Walk_def)
  from walk_loop_pool [OF this] show ?thesis by simp
qed

lemma GetFileReader_pool:
  assumes "BorrowObject (clientPool gcs) = Inr (h, p1)"
  shows "clientPool (snd (GetFileReader gcs remote fault key)) =
     (case Object_NewReader remote fault (Bucket (Config gcs)) (Join [Path (Config gcs), key]) of
        Inl e \<Rightarrow> InvalidateObject h p1 | Inr reader \<Rightarrow> ReturnObject h p1)"
    and "(case fst (GetFileReader gcs remote fault key) of Inl e \<Rightarrow> True | Inr reader \<Rightarrow> False) =
     (case Object_NewReader remote fault (Bucket (Config gcs)) (Join [Path (Config gcs), key]) of
        Inl e \<Rightarrow> True | Inr reader \<Rightarrow> False)"
  using assms by (simp_all add: GetFileReader_def split: sum.splits)

lemma StatFile_pool:
  assumes "BorrowObject (clientPool gcs) = Inr (h, p1)"
  shows "clientPool (snd (StatFile gcs remote fault key)) =
     (case Object_Attrs remote fault (Bucket (Config gcs)) (Join [Path (Config gcs), key]) of
        Inl e \<Rightarrow> if errors_Is e ErrObjectNotExist then p1 else InvalidateObject h p1
      | Inr attrs \<Rightarrow> ReturnObject h p1)"
    and "(case fst (StatFile gcs remote fault key) of Inl e \<Rightarrow> True | Inr f \<Rightarrow> False) =
     (case Object_Attrs remote fault (Bucket (Config gcs)) (Join [Path (Config gcs), key]) of
        Inl e \<Rightarrow> True | Inr attrs \<Rightarrow> False)"
  using assms by (simp_all add: StatFile_def split: sum.splits)

lemma deleteKey_pool:
  assumes "BorrowObject (clientPool gcs) = Inr (h, p1)"
  shows "clientPool (fst (snd (deleteKey gcs remote fault key))) =
     (if fst (Object_Delete remote fault (Bucket (Config gcs)) key) = None
      then ReturnObject h p1 else InvalidateObject h p1)"
    and "fst (deleteKey gcs remote fault key) = fst (Object_Delete remote fault (Bucket (Config gcs)) key)"
  using assms by (simp_all add: deleteKey_def split: prod.splits option.splits)

lemma CopyObject_pool:
  assumes "BorrowObject (clientPool gcs) = Inr (h, p1)"
  shows "clientPool (fst (snd (CopyObject gcs remote afault cfault srcBucket srcKey dstKey))) =
     (case Object_Attrs remote afault srcBucket srcKey of
        Inl e \<Rightarrow> InvalidateObject h p1
      | Inr attrs \<Rightarrow>
          if fst (Copier_Run remote cfault (srcBucket, srcKey)
                 (Bucket (Config gcs), Join [ObjectDiskPath (Config gcs), dstKey])) = None
          then ReturnObject h p1 else InvalidateObject h p1)"
    and "(case fst (CopyObject gcs remote afault cfault srcBucket srcKey dstKey) of
            Inl e \<Rightarrow> True | Inr n \<Rightarrow> False) =
     (case Object_Attrs remote afault srcBucket srcKey of
        Inl e \<Rightarrow> True
      | Inr attrs \<Rightarrow>
          fst (Copier_Run remote cfault (srcBucket, srcKey)
                 (Bucket (Config gcs), Join [ObjectDiskPath (Config gcs), dstKey])) \<noteq> None)"
  using assms by (simp_all add: CopyObject_def split: sum.splits prod.splits option.splits)

lemma PutFile_pool:
  assumes "BorrowObject (clientPool gcs) = Inr (h, p1)"
  shows "\<exists>err remote'. PutFile gcs remote wfault cfault durable now key r =
     Inr (err, gcs\<lparr>clientPool := (if write_fails gcs wfault key r \<or> cfault \<noteq> None
                                    then InvalidateObject h p1 else ReturnObject h p1)\<rparr>, remote')
     \<and> (write_fails gcs wfault key r \<longrightarrow> err \<noteq> None)"
proof -
  let ?w = "NewWriter (Config gcs) (Join [Path (Config gcs), key]) wfault"
  obtain res where "copyBuffer (512 * 1024) ?w r 0 = Inr res"
    using copyBuffer_no_panic [of "512 * 1024" ?w r 0] by auto
  then obtain written err writer r' where
    copy: "copyBuffer (512 * 1024) ?w r 0 = Inr ((written, err), writer, r')"
    by (cases res) auto
  have wf: "write_fails gcs wfault key r = (w_err writer \<noteq> None)"
    by (simp only: write_fails_def copy) simp
  have "w_err ?w = None" by (simp add: NewWriter_fields)
  from copyBuffer_write_error [OF this copy]
  have err: "write_fails gcs wfault key r \<longrightarrow> err \<noteq> None"
    by (auto simp: wf)
  show ?thesis
  proof (cases "write_fails gcs wfault key r \<or> cfault \<noteq> None")
    case True
    then have "w_err writer \<noteq> None \<or> cfault \<noteq> None" by (simp add: wf)
    from Writer_Close_fails [OF this, of remote durable now]
    obtain e where "Writer_Close writer remote cfault durable now =
        (Some e, if durable then finalized writer now remote else remote)"
      by blast
    then have "PutFile gcs remote wfault cfault durable now key r =
        Inr (err, gcs\<lparr>clientPool := InvalidateObject h p1\<rparr>,
             if durable then finalized writer now remote else remote)"
      by (simp add: PutFile_unfold [OF assms copy])
    with True err show ?thesis by auto
  next
    case False
    then have ok: "w_err writer = None" and "cfault = None" by (simp_all add: wf)
    then have "PutFile gcs remote wfault cfault durable now key r =
        Inr (err, gcs\<lparr>clientPool := ReturnObject h p1\<rparr>, finalized writer now remote)"
      by (simp add: PutFile_unfold [OF assms copy] Writer_Close_ok [OF ok])
    with False show ?thesis by auto
  qed
qed

text \<open>
  In general: whenever a handle is borrowed and the attributes call reports the missing
  object, the handle is still borrowed, and not idle, when \<open>StatFile\<close> has returned.
\<close>

lemma StatFile_missing_object:
  assumes borrow: "BorrowObject (clientPool gcs) = Inr (h, p1)"
      and missing: "Object_Attrs remote fault (Bucket (Config gcs))
                      (Join [Path (Config gcs), key]) = Inl e"
                   "errors_Is e ErrObjectNotExist"
      and inv: "pool_inv (clientPool gcs)"
  shows "StatFile gcs remote fault key = (Inl ErrNotFound, gcs\<lparr>clientPool := p1\<rparr>)"
    and "h \<in> set (borrowed p1)" and "h \<notin> set (idle p1)" and "h \<notin> set (destroyed p1)"
proof -
  show "StatFile gcs remote fault key = (Inl ErrNotFound, gcs\<lparr>clientPool := p1\<rparr>)"
    using borrow missing by (simp add: StatFile_def)
  show held: "h \<in> set (borrowed p1)"
    using borrow by (rule borrowed_after_Borrow)
  from BorrowObject_inv [OF inv borrow] have "pool_inv p1" by simp
  then have "distinct (idle p1 @ borrowed p1 @ destroyed p1)"
    by (simp add: pool_inv_def)
  with held show "h \<notin> set (idle p1)" and "h \<notin> set (destroyed p1)"
    by auto
qed

lemma BorrowObject_fails:
  assumes "BorrowObject (clientPool gcs) = Inl e"
  shows "fst (snd (Walk gcs Objects gcsPath recursive process s)) = gcs"
    and "snd (GetFileReader gcs remote fault key) = gcs"
    and "PutFile gcs remote wfault cfault durable now key r = Inr (Some e, gcs, remote)"
    and "snd (StatFile gcs remote fault key) = gcs"
    and "fst (snd (deleteKey gcs remote fault key)) = gcs"
    and "fst (snd (CopyObject gcs remote afault cfault srcBucket srcKey dstKey)) = gcs"
  using assms
  by (simp_all add: Walk_def GetFileReader_def PutFile_def StatFile_def deleteKey_def CopyObject_def)

text \<open>
  An operation ends without a panic, and it leaves the pool as it was (no handle could
  be borrowed), or with the borrowed handle kept, returned or invalidated.
\<close>

lemma run_op_pool:
  "\<exists>res gcs' remote' s'. run_op (gcs, remote, s) x = Inr (res, gcs', remote', s') \<and>
     (clientPool gcs' = clientPool gcs \<or>
      (\<exists>h p1. BorrowObject (clientPool gcs) = Inr (h, p1) \<and>
         (clientPool gcs' = p1 \<or> clientPool gcs' = ReturnObject h p1 \<or>
          clientPool gcs' = InvalidateObject h p1)))"
proof (cases "BorrowObject (clientPool gcs)")
  case (Inl e)
  note none = BorrowObject_fails [OF Inl]
  show ?thesis
  proof (cases x)
    case (OpWalk fault gcsPath recursive process)
    obtain res gcs' s' where w: "Walk gcs (Objects_it remote fault) gcsPath recursive process s = (res, gcs', s')"
      by (cases "Walk gcs (Objects_it remote fault) gcsPath recursive process s") auto
    with none(1) [of "Objects_it remote fault" gcsPath recursive process s] have "gcs' = gcs" by simp
    with w OpWalk show ?thesis by simp
  next
    case (OpGetFileReader fault key)
    obtain res gcs' where g: "GetFileReader gcs remote fault key = (res, gcs')"
      by (cases "GetFileReader gcs remote fault key")
    with none(2) [of remote fault key] have "gcs' = gcs" by simp
    with g OpGetFileReader show ?thesis by (cases res) simp_all
  next
    case (OpPutFile wfault cfault durable now key r)
    with none(3) show ?thesis by simp
  next
    case (OpStatFile fault key)
    obtain res gcs' where g: "StatFile gcs remote fault key = (res, gcs')"
      by (cases "StatFile gcs remote fault key")
    with none(4) [of remote fault key] have "gcs' = gcs" by simp
    with g OpStatFile show ?thesis by (cases res) simp_all
  next
    case (OpDeleteKey fault key)
    obtain res gcs' remote' where g: "deleteKey gcs remote fault key = (res, gcs', remote')"
      by (cases "deleteKey gcs remote fault key") auto
    with none(5) [of remote fault key] have "gcs' = gcs" by simp
    with g OpDeleteKey show ?thesis by simp
  next
    case (OpCopyObject afault cfault srcBucket srcKey dstKey)
    obtain res gcs' remote' where
      g: "CopyObject gcs remote afault cfault srcBucket srcKey dstKey = (res, gcs', remote')"
      by (cases "CopyObject gcs remote afault cfault srcBucket srcKey dstKey") auto
    with none(6) [of remote afault cfault srcBucket srcKey dstKey] have "gcs' = gcs" by simp
    with g OpCopyObject show ?thesis by (cases res) simp_all
  qed
next
  case (Inr hp)
  then obtain h p1 where borrow: "BorrowObject (clientPool gcs) = Inr (h, p1)"
    by (cases hp) simp
  show ?thesis
  proof (cases x)
    case (OpWalk fault gcsPath recursive process)
    obtain res gcs' s' where w: "Walk gcs (Objects_it remote fault) gcsPath recursive process s = (res, gcs', s')"
      by (cases "Walk gcs (Objects_it remote fault) gcsPath recursive process s") auto
    from Walk_pool [OF borrow w]
    have "clientPool gcs' = ReturnObject h p1 \<or> clientPool gcs' = InvalidateObject h p1"
      by (simp split: if_splits)
    with w OpWalk borrow show ?thesis by auto
  next
    case (OpGetFileReader fault key)
    obtain res gcs' where g: "GetFileReader gcs remote fault key = (res, gcs')"
      by (cases "GetFileReader gcs remote fault key")
    from GetFileReader_pool(1) [OF borrow, of remote fault key] g
    have "clientPool gcs' = ReturnObject h p1 \<or> clientPool gcs' = InvalidateObject h p1"
      by (simp split: sum.splits)
    with g OpGetFileReader borrow show ?thesis by (cases res) auto
  next
    case (OpPutFile wfault cfault durable now key r)
    from PutFile_pool [OF borrow, of remote wfault cfault durable now key r]
    obtain err remote' where "PutFile gcs remote wfault cfault durable now key r =
       Inr (err, gcs\<lparr>clientPool := (if write_fails gcs wfault key r \<or> cfault \<noteq> None
                                      then InvalidateObject h p1 else ReturnObject h p1)\<rparr>, remote')"
      by blast
    with OpPutFile borrow show ?thesis by auto
  next
    case (OpStatFile fault key)
    obtain res gcs' where g: "StatFile gcs remote fault key = (res, gcs')"
      by (cases "StatFile gcs remote fault key")
    from StatFile_pool(1) [OF borrow, of remote fault key] g
    have "clientPool gcs' = p1 \<or> clientPool gcs' = ReturnObject h p1 \<or>
          clientPool gcs' = InvalidateObject h p1"
      by (simp split: sum.splits if_splits)
    with g OpStatFile borrow show ?thesis by (cases res) auto
  next
    case (OpDeleteKey fault key)
    obtain res gcs' remote' where g: "deleteKey gcs remote fault key = (res, gcs', remote')"
      by (cases "deleteKey gcs remote fault key") auto
    from deleteKey_pool(1) [OF borrow, of remote fault key] g
    have "clientPool gcs' = ReturnObject h p1 \<or> clientPool gcs' = InvalidateObject h p1"
      by (simp split: if_splits)
    with g OpDeleteKey borrow show ?thesis by auto
  next
    case (OpCopyObject afault cfault srcBucket srcKey dstKey)
    obtain res gcs' remote' where
      g: "CopyObject gcs remote afault cfault srcBucket srcKey dstKey = (res, gcs', remote')"
      by (cases "CopyObject gcs remote afault cfault srcBucket srcKey dstKey") auto
    from CopyObject_pool(1) [OF borrow, of remote afault cfault srcBucket srcKey dstKey] g
    have "clientPool gcs' = ReturnObject h p1 \<or> clientPool gcs' = InvalidateObject h p1"
      by (simp split: sum.splits if_splits)
    with g OpCopyObject borrow show ?thesis by (cases res) auto
  qed
qed

lemma run_ops_keeps:
  assumes "pool_inv (clientPool gcs)" and "d \<in> set (destroyed (clientPool gcs))"
  shows "\<exists>gcs2 remote2 s2. run_ops (gcs, remote, s) xs = Inr (gcs2, remote2, s2) \<and>
           pool_inv (clientPool gcs2) \<and> d \<in> set (destroyed (clientPool gcs2)) \<and>
           d \<notin> set (idle (clientPool gcs2)) \<and>
           (\<exists>new. handed_out (clientPool gcs2) = handed_out (clientPool gcs) @ new \<and> d \<notin> set new)"
  using assms
proof (induction xs arbitrary: gcs remote s)
  case Nil
  then show ?case by (simp add: pool_inv_destroyed_not_idle)
next
  case (Cons x xs)
  from run_op_pool [of gcs remote s x]
  obtain res gcs1 remote1 s1 where run: "run_op (gcs, remote, s) x = Inr (res, gcs1, remote1, s1)"
    and step: "clientPool gcs1 = clientPool gcs \<or>
      (\<exists>h p1. BorrowObject (clientPool gcs) = Inr (h, p1) \<and>
         (clientPool gcs1 = p1 \<or> clientPool gcs1 = ReturnObject h p1 \<or>
          clientPool gcs1 = InvalidateObject h p1))"
    by blast
  from pool_step_keeps [OF Cons.prems step]
  obtain new1 where inv1: "pool_inv (clientPool gcs1)"
    and d1: "d \<in> set (destroyed (clientPool gcs1))"
    and out1: "handed_out (clientPool gcs1) = handed_out (clientPool gcs) @ new1"
    and new1: "d \<notin> set new1"
    by blast
  from Cons.IH [OF inv1 d1, of remote1 s1]
  obtain gcs2 remote2 s2 new2 where
    rest: "run_ops (gcs1, remote1, s1) xs = Inr (gcs2, remote2, s2)"
    and inv2: "pool_inv (clientPool gcs2)" "d \<in> set (destroyed (clientPool gcs2))"
       "d \<notin> set (idle (clientPool gcs2))"
    and out2: "handed_out (clientPool gcs2) = handed_out (clientPool gcs1) @ new2"
    and new2: "d \<notin> set new2"
    by blast
  from run rest have "run_ops (gcs, remote, s) (x # xs) = Inr (gcs2, remote2, s2)"
    by simp
  moreover from out1 out2 have "handed_out (clientPool gcs2) = handed_out (clientPool gcs) @ (new1 @ new2)"
    by simp
  moreover from new1 new2 have "d \<notin> set (new1 @ new2)" by simp
  ultimately show ?case using inv2 by blast
qed

lemma Walk_result:
  assumes "BorrowObject (clientPool gcs) = Inr (h, p1)"
  shows "fst (Walk gcs (Objects_it remote fault) gcsPath recursive process s) =
     (let items = Bucket_Objects remote (Bucket (Config gcs))
                    (walk_prefix (Config gcs) gcsPath) (walk_delimiter recursive);
          rootPath = walk_rootPath (Config gcs) gcsPath
      in case fault of
           None \<Rightarrow> fst (visit_all process rootPath items s)
         | Some (n, e) \<Rightarrow>
             (case fst (visit_all process rootPath (take n items) s) of
                Some e' \<Rightarrow> Some e'
              | None \<Rightarrow> if errors_Is e IteratorDone then None else Some e))"
proof (cases fault)
  case None
  let ?items = "Bucket_Objects remote (Bucket (Config gcs))
                    (walk_prefix (Config gcs) gcsPath) (walk_delimiter recursive)"
  have "Objects_it remote fault (Bucket (Config gcs)) (walk_prefix (Config gcs) gcsPath)
          (walk_delimiter recursive) = map Inr ?items @ []"
    using None by (simp add: Objects_it_def)
  then show ?thesis
    using assms None
    by (simp only: Walk_def walk_loop_visits)
       (simp add: Let_def split: prod.splits option.splits)
next
  case (Some ne)
  obtain n e where ne: "ne = (n, e)" by (cases ne)
  let ?items = "Bucket_Objects remote (Bucket (Config gcs))
                    (walk_prefix (Config gcs) gcsPath) (walk_delimiter recursive)"
  have "Objects_it remote fault (Bucket (Config gcs)) (walk_prefix (Config gcs) gcsPath)
          (walk_delimiter recursive) = map Inr (take n ?items) @ [Inl e]"
    using Some ne by (simp add: Objects_it_def)
  then show ?thesis
    using assms Some ne
    by (simp only: Walk_def walk_loop_visits)
       (simp add: Let_def split: prod.splits option.splits)
qed

lemma call_fails_invalidates:
  assumes borrow: "BorrowObject (clientPool gcs) = Inr (h, p1)"
      and fails: "call_fails (gcs, remote, s) x"
  shows "\<exists>res gcs1 remote1 s1. run_op (gcs, remote, s) x = Inr (res, gcs1, remote1, s1) \<and>
           clientPool gcs1 = InvalidateObject h p1 \<and>
           ((\<exists>wfault cfault durable now key r.
               x = OpPutFile wfault cfault durable now key r \<and> \<not> write_fails gcs wfault key r)
            \<or> res \<noteq> None)"
proof (cases x)
  case (OpWalk fault gcsPath recursive process)
  obtain res gcs' s' where w: "Walk gcs (Objects_it remote fault) gcsPath recursive process s = (res, gcs', s')"
    by (cases "Walk gcs (Objects_it remote fault) gcsPath recursive process s") auto
  from Walk_result [OF borrow, of remote fault gcsPath recursive process s] w
  have "res = (let items = Bucket_Objects remote (Bucket (Config gcs))
                    (walk_prefix (Config gcs) gcsPath) (walk_delimiter recursive);
          rootPath = walk_rootPath (Config gcs) gcsPath
      in case fault of
           None \<Rightarrow> fst (visit_all process rootPath items s)
         | Some (n, e) \<Rightarrow>
             (case fst (visit_all process rootPath (take n items) s) of
                Some e' \<Rightarrow> Some e'
              | None \<Rightarrow> if errors_Is e IteratorDone then None else Some e))"
    by simp
  with fails OpWalk have res: "res \<noteq> None"
    by (auto simp: Let_def split: option.splits prod.splits if_splits)
  with Walk_pool [OF borrow w] have "clientPool gcs' = InvalidateObject h p1" by simp
  with w OpWalk res show ?thesis by simp
next
  case (OpGetFileReader fault key)
  obtain res gcs' where g: "GetFileReader gcs remote fault key = (res, gcs')"
    by (cases "GetFileReader gcs remote fault key")
  from fails OpGetFileReader obtain e where
    e: "Object_NewReader remote fault (Bucket (Config gcs)) (Join [Path (Config gcs), key]) = Inl e"
    by (auto split: sum.splits)
  from GetFileReader_pool [OF borrow, of remote fault key] g e
  have "clientPool gcs' = InvalidateObject h p1" and "\<exists>e'. res = Inl e'"
    by (simp_all split: sum.splits)
  with g OpGetFileReader show ?thesis by auto
next
  case (OpPutFile wfault cfault durable now key r)
  with fails have f: "write_fails gcs wfault key r \<or> cfault \<noteq> None" by simp
  from PutFile_pool [OF borrow, of remote wfault cfault durable now key r]
  obtain err remote' where put: "PutFile gcs remote wfault cfault durable now key r =
       Inr (err, gcs\<lparr>clientPool := (if write_fails gcs wfault key r \<or> cfault \<noteq> None
                                      then InvalidateObject h p1 else ReturnObject h p1)\<rparr>, remote')"
    and err: "write_fails gcs wfault key r \<longrightarrow> err \<noteq> None"
    by blast
  from put f OpPutFile
  have run: "run_op (gcs, remote, s) x =
      Inr (err, gcs\<lparr>clientPool := InvalidateObject h p1\<rparr>, remote', s)"
    by simp
  have "(\<exists>wfault cfault durable now key r.
           x = OpPutFile wfault cfault durable now key r \<and> \<not> write_fails gcs wfault key r)
        \<or> err \<noteq> None"
    using err OpPutFile by blast
  with run show ?thesis by simp
next
  case (OpStatFile fault key)
  obtain res gcs' where g: "StatFile gcs remote fault key = (res, gcs')"
    by (cases "StatFile gcs remote fault key")
  from fails OpStatFile obtain e where
    e: "Object_Attrs remote fault (Bucket (Config gcs)) (Join [Path (Config gcs), key]) = Inl e"
    and ne: "\<not> errors_Is e ErrObjectNotExist"
    by (auto split: sum.splits)
  from StatFile_pool [OF borrow, of remote fault key] g e ne
  have "clientPool gcs' = InvalidateObject h p1" and "\<exists>e'. res = Inl e'"
    by (simp_all split: sum.splits)
  with g OpStatFile show ?thesis by auto
next
  case (OpDeleteKey fault key)
  obtain res gcs' remote' where g: "deleteKey gcs remote fault key = (res, gcs', remote')"
    by (cases "deleteKey gcs remote fault key") auto
  from fails OpDeleteKey have "fst (Object_Delete remote fault (Bucket (Config gcs)) key) \<noteq> None"
    by simp
  with deleteKey_pool [OF borrow, of remote fault key] g
  have "clientPool gcs' = InvalidateObject h p1" and "res \<noteq> None"
    by simp_all
  with g OpDeleteKey show ?thesis by simp
next
  case (OpCopyObject afault cfault srcBucket srcKey dstKey)
  obtain res gcs' remote' where
    g: "CopyObject gcs remote afault cfault srcBucket srcKey dstKey = (res, gcs', remote')"
    by (cases "CopyObject gcs remote afault cfault srcBucket srcKey dstKey") auto
  from fails OpCopyObject CopyObject_pool [OF borrow, of remote afault cfault srcBucket srcKey dstKey] g
  have "clientPool gcs' = InvalidateObject h p1" and "\<exists>e'. res = Inl e'"
    by (simp_all split: sum.splits)
  with g OpCopyObject show ?thesis by auto
qed

subsection \<open>Handles after a failed call\<close>

text \<open>
  Against claim C3 as it is stated: the attributes call of \<open>StatFile\<close> fails with the
  missing object error on the borrowed handle 0, \<open>StatFile\<close> returns an error, and the
  handle is not among the destroyed ones.
\<close>

theorem StatFile_missing_not_invalidated_counterexample:
  "Object_Attrs three_keys None (Bucket (Config root_gcs)) (Join [Path (Config root_gcs), ''missing''])
     = Inl ErrObjectNotExist
   \<and> BorrowObject (clientPool root_gcs) =
       Inr (0, (empty_pool 1)\<lparr>borrowed := [0], created := 1, handed_out := [0]\<rparr>)
   \<and> run_op (root_gcs, three_keys, ()) (OpStatFile None ''missing'') =
       Inr (Some ErrNotFound,
            root_gcs\<lparr>clientPool := (empty_pool 1)\<lparr>borrowed := [0], created := 1, handed_out := [0]\<rparr>\<rparr>,
            three_keys, ())
   \<and> 0 \<notin> set (destroyed ((empty_pool 1)\<lparr>borrowed := [0], created := 1, handed_out := [0]\<rparr>))"
  by (simp add: StatFile_def eval_defs)

text \<open>
  Claim C3, amended: in a well formed pool, when a call that an operation makes on its
  borrowed handle fails (the cursor or the callback of \<open>Walk\<close>, the opening of the reader
  of \<open>GetFileReader\<close>, a write or the closing of the writer of \<open>PutFile\<close>, the
  attributes of \<open>StatFile\<close> for another reason than a missing object, the deletion of
  \<open>deleteKey\<close>, the attributes or the copy of \<open>CopyObject\<close>), the handle is invalidated
  before the operation returns: it is destroyed and not idle then, and the operation
  returns an error (what \<open>PutFile\<close> returns when only the closing failed is not stated
  here); and after every further sequence of operations the handle is still not idle and
  no acquire has handed it out.
\<close>

theorem failed_call_invalidates_handle:
  assumes inv: "pool_inv (clientPool gcs)"
      and borrow: "BorrowObject (clientPool gcs) = Inr (h, p1)"
      and fails: "call_fails (gcs, remote, s) x"
  shows "\<exists>res gcs1 remote1 s1.
           run_op (gcs, remote, s) x = Inr (res, gcs1, remote1, s1)
         \<and> ((\<exists>wfault cfault durable now key r.
               x = OpPutFile wfault cfault durable now key r \<and> \<not> write_fails gcs wfault key r)
            \<or> res \<noteq> None)
         \<and> clientPool gcs1 = InvalidateObject h p1
         \<and> h \<in> set (destroyed (clientPool gcs1)) \<and> h \<notin> set (idle (clientPool gcs1))
         \<and> (\<forall>xs. \<exists>gcs2 remote2 s2 new.
                run_ops (gcs1, remote1, s1) xs = Inr (gcs2, remote2, s2)
              \<and> handed_out (clientPool gcs2) = handed_out (clientPool gcs1) @ new
              \<and> h \<notin> set new \<and> h \<notin> set (idle (clientPool gcs2)))"
proof -
  from call_fails_invalidates [OF borrow fails]
  obtain res gcs1 remote1 s1 where run: "run_op (gcs, remote, s) x = Inr (res, gcs1, remote1, s1)"
    and pool: "clientPool gcs1 = InvalidateObject h p1"
    and res: "(\<exists>wfault cfault durable now key r.
               x = OpPutFile wfault cfault durable now key r \<and> \<not> write_fails gcs wfault key r)
            \<or> res \<noteq> None"
    by blast
  from BorrowObject_inv [OF inv borrow] have inv1: "pool_inv p1" by simp
  have held: "h \<in> set (borrowed p1)" using borrow by (rule borrowed_after_Borrow)
  from InvalidateObject_inv [OF inv1 held] pool
  have inv2: "pool_inv (clientPool gcs1)" and d: "h \<in> set (destroyed (clientPool gcs1))"
    by simp_all
  have ni: "h \<notin> set (idle (clientPool gcs1))"
    using inv2 d by (rule pool_inv_destroyed_not_idle)
  have later: "\<exists>gcs2 remote2 s2 new.
                run_ops (gcs1, remote1, s1) xs = Inr (gcs2, remote2, s2)
              \<and> handed_out (clientPool gcs2) = handed_out (clientPool gcs1) @ new
              \<and> h \<notin> set new \<and> h \<notin> set (idle (clientPool gcs2))" for xs
    using run_ops_keeps [OF inv2 d, of remote1 s1 xs] by blast
  from run res pool d ni later show ?thesis by blast
qed


theorem failed_call_invalidates_handle_witness:
  "pool_inv (clientPool root_gcs)
   \<and> BorrowObject (clientPool root_gcs) =
       Inr (0, (empty_pool 1)\<lparr>borrowed := [0], created := 1, handed_out := [0]\<rparr>)
   \<and> call_fails (root_gcs, three_keys, [] :: gcsFile list)
         (OpStatFile (Some (BackendError ''timeout'')) ''b'')
   \<and> (\<exists>res gcs1 remote1 s1.
         run_op (root_gcs, three_keys, []) (OpStatFile (Some (BackendError ''timeout'')) ''b'') =
           Inr (res, gcs1, remote1, s1)
       \<and> res \<noteq> None
       \<and> 0 \<in> set (destroyed (clientPool gcs1))
       \<and> (\<exists>gcs2 remote2 s2 new.
             run_ops (gcs1, remote1, s1) [OpStatFile None ''b'', OpWalk None ''/'' True collect] =
               Inr (gcs2, remote2, s2)
           \<and> handed_out (clientPool gcs2) = handed_out (clientPool gcs1) @ new
           \<and> 0 \<notin> set new))"
proof -
  let ?x = "OpStatFile (Some (BackendError ''timeout'')) ''b'' :: gcsFile list op"
  let ?p1 = "(empty_pool 1)\<lparr>borrowed := [0], created := 1, handed_out := [0]\<rparr>"
  have inv: "pool_inv (clientPool root_gcs)"
    by (simp add: pool_inv_def root_gcs_def empty_pool_def)
  have borrow: "BorrowObject (clientPool root_gcs) = Inr (0, ?p1)"
    by (simp add: eval_defs)
  have fails: "call_fails (root_gcs, three_keys, []) ?x"
    by (simp add: Object_Attrs_def)
  from failed_call_invalidates_handle [OF inv borrow fails]
  obtain res gcs1 remote1 s1 where
    run: "run_op (root_gcs, three_keys, []) ?x = Inr (res, gcs1, remote1, s1)"
    and res: "(\<exists>wfault cfault durable now key r.
               ?x = OpPutFile wfault cfault durable now key r
               \<and> \<not> write_fails root_gcs wfault key r)
            \<or> res \<noteq> None"
    and d: "0 \<in> set (destroyed (clientPool gcs1))"
    and later: "\<forall>xs. \<exists>gcs2 remote2 s2 new.
                run_ops (gcs1, remote1, s1) xs = Inr (gcs2, remote2, s2)
              \<and> handed_out (clientPool gcs2) = handed_out (clientPool gcs1) @ new
              \<and> 0 \<notin> set new \<and> 0 \<notin> set (idle (clientPool gcs2))"
    by blast
  from res have res': "res \<noteq> None" by simp
  from later obtain gcs2 remote2 s2 new where
    rest: "run_ops (gcs1, remote1, s1) [OpStatFile None ''b'', OpWalk None ''/'' True collect] =
               Inr (gcs2, remote2, s2)"
    and out: "handed_out (clientPool gcs2) = handed_out (clientPool gcs1) @ new"
    and new: "0 \<notin> set new"
    by blast
  show ?thesis
  proof (intro conjI exI)
    show "pool_inv (clientPool root_gcs)" by (rule inv)
    show "BorrowObject (clientPool root_gcs) = Inr (0, ?p1)" by (rule borrow)
    show "call_fails (root_gcs, three_keys, []) ?x" by (rule fails)
    show "run_op (root_gcs, three_keys, []) ?x = Inr (res, gcs1, remote1, s1)" by (rule run)
    show "res \<noteq> None" by (rule res')
    show "0 \<in> set (destroyed (clientPool gcs1))" by (rule d)
    show "run_ops (gcs1, remote1, s1) [OpStatFile None ''b'', OpWalk None ''/'' True collect] =
               Inr (gcs2, remote2, s2)" by (rule rest)
    show "handed_out (clientPool gcs2) = handed_out (clientPool gcs1) @ new" by (rule out)
    show "0 \<notin> set new" by (rule new)
  qed
qed

end
